theory Spec2Isabelle
  imports Complex_Main "HOL-Library.Word"
begin

unbundle bit_operations_syntax

section \<open>Bytes, slices and the heap\<close>

text \<open>
  The package works on Go byte slices. A slice is a window (offset, length, capacity) on a
  backing array; the heap is the list of all backing arrays, an array's address being its
  index. Allocation appends a new array, so an address below the old heap size names an
  array that existed before.
\<close>

type_synonym byte = "8 word"
type_synonym u64 = "64 word"
type_synonym heap = "byte list list"

record slice =
  arr :: nat
  off :: nat
  len :: nat
  cap :: nat

text \<open>The elements \<open>s[0], ..., s[len(s)-1]\<close>.\<close>

definition bytes_of :: "heap \<Rightarrow> slice \<Rightarrow> byte list" where
  "bytes_of h s = take (len s) (drop (off s) (h ! arr s))"

text \<open>
  A slice of capacity 0 (the nil slice among them) touches no array; any other slice lies
  inside an allocated array.
\<close>

definition valid_slice :: "heap \<Rightarrow> slice \<Rightarrow> bool" where
  "valid_slice h s =
     (len s \<le> cap s \<and> (cap s = 0 \<or> (arr s < length h \<and> off s + cap s \<le> length (h ! arr s))))"

text \<open>\<open>make([]byte, n)\<close>: a new zeroed array of \<open>n\<close> bytes.\<close>

definition make_slice :: "nat \<Rightarrow> heap \<Rightarrow> slice \<times> heap" where
  "make_slice n h = (\<lparr>arr = length h, off = 0, len = n, cap = n\<rparr>, h @ [replicate n 0])"

text \<open>Overwriting the bytes of array \<open>a\<close> from position \<open>p\<close> on with \<open>bs\<close>.\<close>

definition store_at :: "nat \<Rightarrow> nat \<Rightarrow> byte list \<Rightarrow> heap \<Rightarrow> heap" where
  "store_at a p bs h = h[a := take p (h ! a) @ bs @ drop (p + length bs) (h ! a)]"

text \<open>\<open>copy(dst, src)\<close> copies \<open>min(len(dst), len(src))\<close> elements.\<close>

definition copy_slice :: "slice \<Rightarrow> slice \<Rightarrow> heap \<Rightarrow> heap" where
  "copy_slice dst src h =
     store_at (arr dst) (off dst) (take (min (len dst) (len src)) (bytes_of h src)) h"

text \<open>The slice expressions \<open>s[n:]\<close> and \<open>s[:n]\<close>.\<close>

definition slice_from :: "slice \<Rightarrow> nat \<Rightarrow> slice" where
  "slice_from s n = \<lparr>arr = arr s, off = off s + n, len = len s - n, cap = cap s - n\<rparr>"

definition slice_to :: "slice \<Rightarrow> nat \<Rightarrow> slice" where
  "slice_to s n = s\<lparr>len := n\<rparr>"

text \<open>\<open>binary.LittleEndian.PutUint64(b, v)\<close> writes the eight bytes of \<open>v\<close>, least
  significant first, into \<open>b[0..7]\<close>.\<close>

definition le64 :: "u64 \<Rightarrow> byte list" where
  "le64 v = map (\<lambda>j. ucast (drop_bit (8 * j) v)) [0..<8]"

definition PutUint64 :: "slice \<Rightarrow> u64 \<Rightarrow> heap \<Rightarrow> heap" where
  "PutUint64 b v h = store_at (arr b) (off b) (le64 v) h"

section \<open>The runtime and the math library\<close>

text \<open>
  \<open>New\<close> and \<open>Key\<close> compute with \<open>float64\<close> values through \<open>math.Log\<close>,
  \<open>math.Ceil\<close>, \<open>math.Pow\<close>, float division and the conversions between
  \<open>uint64\<close> and \<open>float64\<close>; \<open>append\<close> picks the capacity of a grown slice.
  None of this is defined in the package, so the model takes these operations as a
  parameter: \<open>'f\<close> is the type of floating-point values. Theorems stated for every runtime
  hold whatever the rounding of the library is.
\<close>

record 'f runtime =
  float64 :: "u64 \<Rightarrow> 'f"
  uint64 :: "'f \<Rightarrow> u64"
  quo :: "'f \<Rightarrow> 'f \<Rightarrow> 'f"
  Log :: "'f \<Rightarrow> 'f"
  Ceil :: "'f \<Rightarrow> 'f"
  Pow :: "'f \<Rightarrow> 'f \<Rightarrow> 'f"
  growcap :: "nat \<Rightarrow> nat \<Rightarrow> nat"

text \<open>
  \<open>append(s, bs...)\<close>: in place when the capacity suffices, otherwise into a new array
  whose capacity is at least the needed length (how much more is the runtime's choice).
\<close>

definition append_slice :: "'f runtime \<Rightarrow> slice \<Rightarrow> byte list \<Rightarrow> heap \<Rightarrow> slice \<times> heap" where
  "append_slice R s bs h =
     (let n = len s + length bs in
      if n \<le> cap s then (s\<lparr>len := n\<rparr>, store_at (arr s) (off s + len s) bs h)
      else
        let c = max n (growcap R (cap s) n) in
        (\<lparr>arr = length h, off = 0, len = n, cap = c\<rparr>,
         h @ [bytes_of h s @ bs @ replicate (c - n) 0]))"

text \<open>
  Exact real arithmetic as a runtime. It agrees with IEEE double precision wherever every
  value involved is exactly representable and the operation is exact; it is used to run the
  program on concrete inputs only. A runtime that rounds as double precision does follows
  further down.
\<close>

definition exact :: "real runtime" where
  "exact = \<lparr>float64 = (\<lambda>w. real (unat w)),
            uint64 = (\<lambda>x. word_of_int (if 0 \<le> x then \<lfloor>x\<rfloor> else \<lceil>x\<rceil>)),
            quo = (\<lambda>x y. x / y),
            Log = ln,
            Ceil = (\<lambda>x. of_int \<lceil>x\<rceil>),
            Pow = (\<lambda>x y. if 0 \<le> y \<and> y = of_int \<lfloor>y\<rfloor> then x ^ nat \<lfloor>y\<rfloor> else x powr y),
            growcap = (\<lambda>old n. max n (2 * old))\<rparr>"

section \<open>The keyed hash tree\<close>

text \<open>
  A \<open>KeyedHash\<close> maps a key to a \<open>hash.Hash\<close>; the model keeps what \<open>Key\<close> uses of
  it: the digest as a function of the key bytes at creation and of the bytes written.
\<close>

type_synonym KeyedHash = "byte list \<Rightarrow> byte list \<Rightarrow> byte list"

record 'f KeyedHashTree =
  root_key :: slice
  alg :: KeyedHash
  blockSize :: u64
  maxSize :: u64
  depth :: u64
  factor :: 'f

text \<open>
  \<open>OffsetOutOfRange\<close> is the panic "offset greater than maximum size";
  \<open>DivideByZero\<close> is the runtime panic of an integer division by zero;
  \<open>InvalidParameters\<close> is the construction error the specification names.
\<close>

datatype error = OffsetOutOfRange | DivideByZero | InvalidParameters

text \<open>\<open>New\<close> stores its arguments (the key slice itself, not a copy) and the depth.\<close>

definition New :: "'f runtime \<Rightarrow> slice \<Rightarrow> KeyedHash \<Rightarrow> u64 \<Rightarrow> u64 \<Rightarrow> 'f \<Rightarrow> 'f KeyedHashTree" where
  "New R key a bs ms f =
     \<lparr>root_key = key, alg = a, blockSize = bs, maxSize = ms,
      depth = uint64 R (Ceil R (quo R (Log R (quo R (float64 R ms) (float64 R bs))) (Log R f))),
      factor = f\<rparr>"

text \<open>\<open>New\<close> has no failing path: as a call it always returns its tree.\<close>

definition New_call ::
  "'f runtime \<Rightarrow> slice \<Rightarrow> KeyedHash \<Rightarrow> u64 \<Rightarrow> u64 \<Rightarrow> 'f \<Rightarrow> error + 'f KeyedHashTree" where
  "New_call R key a bs ms f = Inr (New R key a bs ms f)"

text \<open>
  The program state: the heap, the tree \<open>Key\<close> is called on, and (as a record of effects)
  the calls of the keyed-hash factory made so far, each with its key and the bytes written.
\<close>

record 'f state =
  mem :: heap
  tree :: "'f KeyedHashTree"
  calls :: "(byte list \<times> byte list) list"

text \<open>The block size of the level visited at step \<open>i\<close>, in wrapping 64-bit arithmetic.\<close>

definition levelBlockSize :: "'f runtime \<Rightarrow> 'f KeyedHashTree \<Rightarrow> u64 \<Rightarrow> u64" where
  "levelBlockSize R t i =
     (let level = depth t - i
      in uint64 R (Pow R (factor t) (float64 R (level - 1))) * blockSize t)"

text \<open>The loop of \<open>Key\<close>; \<open>h.Sum(k[:0])\<close> appends the digest to the emptied \<open>k\<close>.\<close>

function Key_loop ::
  "'f runtime \<Rightarrow> u64 \<Rightarrow> slice \<Rightarrow> u64 \<Rightarrow> slice \<Rightarrow> 'f state \<Rightarrow> (error + slice) \<times> 'f state" where
  "Key_loop R offset buf i k \<sigma> =
     (if i < depth (tree \<sigma>) then
        (if levelBlockSize R (tree \<sigma>) i = 0 then (Inl DivideByZero, \<sigma>)
         else
           let y = offset div levelBlockSize R (tree \<sigma>) i;
               m1 = PutUint64 buf i (mem \<sigma>);
               m2 = PutUint64 (slice_from buf 8) y m1;
               key = bytes_of m2 k;
               msg = bytes_of m2 buf;
               (k', m3) = append_slice R (slice_to k 0) (alg (tree \<sigma>) key msg) m2
           in Key_loop R offset buf (i + 1) k'
                (\<sigma>\<lparr>mem := m3, calls := calls \<sigma> @ [(key, msg)]\<rparr>))
      else (Inr k, \<sigma>))"
  by pat_completeness auto
termination
proof -
  have m: "unat (d - (i + 1)) < unat (d - i)" if a: "i < d" for i d :: u64
  proof -
    from a have l: "unat i < unat d" by (simp add: word_less_nat_alt)
    moreover have "unat d < 2 ^ 64" using unsigned_less [of d] by simp
    ultimately have s: "unat (i + 1) = unat i + 1"
      by (simp add: unat_word_ariths)
    have "unat (d - i) = unat d - unat i"
      using a by (simp add: unat_sub word_le_nat_alt word_less_nat_alt)
    moreover have "unat (d - (i + 1)) = unat d - unat (i + 1)"
      using s l by (simp add: unat_sub word_le_nat_alt)
    ultimately show ?thesis using s l by simp
  qed
  show ?thesis
    by (relation "measure (\<lambda>(R, offset, buf, i, k, \<sigma>). unat (depth (tree \<sigma>) - i))")
       (auto simp: m)
qed

declare Key_loop.simps [simp del]

definition Key :: "'f runtime \<Rightarrow> u64 \<Rightarrow> 'f state \<Rightarrow> (error + slice) \<times> 'f state" where
  "Key R offset \<sigma> =
     (if offset > maxSize (tree \<sigma>) then (Inl OffsetOutOfRange, \<sigma>)
      else
        let (buf, m1) = make_slice 16 (mem \<sigma>);
            (k, m2) = make_slice (len (root_key (tree \<sigma>))) m1;
            m3 = copy_slice k (root_key (tree \<sigma>)) m2
        in Key_loop R offset buf 0 k (\<sigma>\<lparr>mem := m3\<rparr>))"

text \<open>What the caller reads from the returned slice.\<close>

definition result_bytes :: "heap \<Rightarrow> error + slice \<Rightarrow> error + byte list" where
  "result_bytes h r = (case r of Inl e \<Rightarrow> Inl e | Inr k \<Rightarrow> Inr (bytes_of h k))"

definition Key_bytes :: "'f runtime \<Rightarrow> u64 \<Rightarrow> 'f state \<Rightarrow> error + byte list" where
  "Key_bytes R offset \<sigma> = (let (r, \<sigma>') = Key R offset \<sigma> in result_bytes (mem \<sigma>') r)"

section \<open>The derivation as a walk over the step indices\<close>

text \<open>
  The same derivation without heap or loop counter: the steps \<open>0, ..., depth - 1\<close> as a
  list, the working key as a byte string, and the factory calls collected on the way.
\<close>

fun walk ::
  "'f runtime \<Rightarrow> 'f KeyedHashTree \<Rightarrow> u64 \<Rightarrow> nat list \<Rightarrow> byte list
     \<Rightarrow> (error + byte list) \<times> (byte list \<times> byte list) list" where
  "walk R t offset [] k = (Inr k, [])"
| "walk R t offset (i # is) k =
     (if levelBlockSize R t (of_nat i) = 0 then (Inl DivideByZero, [])
      else
        let msg = le64 (of_nat i) @ le64 (offset div levelBlockSize R t (of_nat i));
            (r, tr) = walk R t offset is (alg t k msg)
        in (r, (k, msg) # tr))"

definition derive ::
  "'f runtime \<Rightarrow> 'f KeyedHashTree \<Rightarrow> u64 \<Rightarrow> byte list
     \<Rightarrow> (error + byte list) \<times> (byte list \<times> byte list) list" where
  "derive R t offset k = walk R t offset [0..<unat (depth t)] k"

text \<open>
  The walk in the words of the specification: the level block size is the real number
  \<open>blockSize * factor^(level - 1)\<close> and \<open>y\<close> is the floor of the real quotient.
\<close>

definition spec_levelBlockSize :: "nat \<Rightarrow> real \<Rightarrow> nat \<Rightarrow> real" where
  "spec_levelBlockSize bs F level = real bs * F ^ (level - 1)"

fun spec_walk ::
  "KeyedHash \<Rightarrow> nat \<Rightarrow> real \<Rightarrow> nat \<Rightarrow> nat \<Rightarrow> nat list \<Rightarrow> byte list \<Rightarrow> byte list" where
  "spec_walk a bs F d offset [] k = k"
| "spec_walk a bs F d offset (i # is) k =
     (let level = d - i;
          y = \<lfloor>real offset / spec_levelBlockSize bs F level\<rfloor>
      in spec_walk a bs F d offset is (a k (le64 (of_nat i) @ le64 (of_int y))))"

definition spec_Key :: "KeyedHash \<Rightarrow> byte list \<Rightarrow> nat \<Rightarrow> real \<Rightarrow> nat \<Rightarrow> nat \<Rightarrow> byte list" where
  "spec_Key a rootKey bs F d offset = spec_walk a bs F d offset [0..<d] rootKey"

section \<open>Conditions on states and trees\<close>

text \<open>
  Inside the loop the index buffer \<open>buf\<close> is a whole 16-byte array and the working key
  \<open>k\<close> lies in another array; both arrays were allocated after the call began (at
  addresses from \<open>n0\<close> on).
\<close>

definition buf_ok :: "nat \<Rightarrow> heap \<Rightarrow> slice \<Rightarrow> bool" where
  "buf_ok n0 h buf =
     (n0 \<le> arr buf \<and> arr buf < length h \<and> off buf = 0 \<and> len buf = 16 \<and>
      length (h ! arr buf) = 16)"

definition key_ok :: "nat \<Rightarrow> heap \<Rightarrow> slice \<Rightarrow> slice \<Rightarrow> bool" where
  "key_ok n0 h buf k =
     (n0 \<le> arr k \<and> arr k < length h \<and> arr k \<noteq> arr buf \<and>
      off k + cap k \<le> length (h ! arr k) \<and> len k \<le> cap k)"

text \<open>The truncated power used at step \<open>i\<close>, that is at level \<open>depth - i\<close>.\<close>

definition levelPower :: "'f runtime \<Rightarrow> 'f KeyedHashTree \<Rightarrow> u64 \<Rightarrow> u64" where
  "levelPower R t i = uint64 R (Pow R (factor t) (float64 R (depth t - i - 1)))"

text \<open>No level's block size exceeds 64 bits: the product is the true product.\<close>

definition no_wrap :: "'f runtime \<Rightarrow> 'f KeyedHashTree \<Rightarrow> bool" where
  "no_wrap R t =
     (\<forall>i < unat (depth t). unat (levelPower R t (of_nat i)) * unat (blockSize t) < 2 ^ 64)"

text \<open>
  The factor acts as the whole number \<open>F\<close>: at every level the converted power is
  exactly \<open>F ^ (level - 1)\<close>.\<close>

definition whole_factor :: "'f runtime \<Rightarrow> 'f KeyedHashTree \<Rightarrow> nat \<Rightarrow> bool" where
  "whole_factor R t F =
     (\<forall>i < unat (depth t). unat (levelPower R t (of_nat i)) = F ^ (unat (depth t) - i - 1))"

text \<open>Every digest of the keyed hash has \<open>n\<close> bytes.\<close>

definition digest_size :: "KeyedHash \<Rightarrow> nat \<Rightarrow> bool" where
  "digest_size a n = (\<forall>key msg. length (a key msg) = n)"

section \<open>Concrete inputs\<close>

text \<open>
  A small keyed hash with 16-byte digests for running the program: the message, cut or
  zero-padded to 16 bytes, combined bytewise (exclusive or) with the key treated alike.
\<close>

definition pad16 :: "byte list \<Rightarrow> byte list" where
  "pad16 bs = take 16 (bs @ replicate 16 0)"

definition xor16 :: KeyedHash where
  "xor16 key msg = map2 (XOR) (pad16 key) (pad16 msg)"

text \<open>The root key of the package's test: the three ASCII bytes of "yay".\<close>

definition yay :: "byte list" where
  "yay = [0x79, 0x61, 0x79]"

definition yay_slice :: slice where
  "yay_slice = \<lparr>arr = 0, off = 0, len = 3, cap = 3\<rparr>"

text \<open>A state whose heap holds exactly the root key, before any call of \<open>Key\<close>.\<close>

definition start :: "'f KeyedHashTree \<Rightarrow> 'f state" where
  "start t = \<lparr>mem = [yay], tree = t, calls = []\<rparr>"

section \<open>A double-precision runtime\<close>

text \<open>
  A second runtime, for inputs on which rounding decides. A finite \<open>float64\<close> value is
  a pair \<open>(m, e)\<close> standing for \<open>m * 2^e\<close>; every operation computes the exact result
  and rounds it to 53 significant bits, ties to even, as IEEE 754 does. Infinities, NaN,
  overflow and subnormal numbers are not represented. \<open>Log\<close> and \<open>Pow\<close> follow
  \<open>log.go\<close> and \<open>pow.go\<close> of Go's \<open>math\<close> package (themselves the FreeBSD
  algorithms) on their finite paths, every operation rounded on its own (no fused
  multiply-add); neither file belongs to the repository. The conversion to \<open>uint64\<close>
  cuts the fraction off; a value outside the 64-bit range, which Go leaves to the
  implementation, is taken modulo \<open>2^64\<close> (no run below converts one).
\<close>

type_synonym dyadic = "int \<times> int"

text \<open>The number of binary digits of a natural number.\<close>

function bits_from :: "int \<Rightarrow> nat \<Rightarrow> int" where
  "bits_from k n = (if n = 0 then k else bits_from (k + 1) (n div 2))"
  by pat_completeness auto
termination
  by (relation "measure (\<lambda>(k, n). n)") auto

declare bits_from.simps [simp del]

definition bits :: "nat \<Rightarrow> int" where
  "bits n = bits_from 0 n"

definition round53 :: "dyadic \<Rightarrow> dyadic" where
  "round53 x =
     (case x of (m, e) \<Rightarrow>
        let b = bits (nat \<bar>m\<bar>) in
        if b \<le> 53 then (m, e)
        else
          let sh = nat (b - 53);
              q = \<bar>m\<bar> div 2 ^ sh;
              r = \<bar>m\<bar> mod 2 ^ sh;
              q' = (if 2 ^ sh < 2 * r \<or> (2 * r = 2 ^ sh \<and> odd q) then q + 1 else q)
          in (sgn m * q', e + int sh))"

definition fmul :: "dyadic \<Rightarrow> dyadic \<Rightarrow> dyadic" where
  "fmul x y = round53 (fst x * fst y, snd x + snd y)"

definition fadd :: "dyadic \<Rightarrow> dyadic \<Rightarrow> dyadic" where
  "fadd x y =
     (let e = min (snd x) (snd y)
      in round53 (fst x * 2 ^ nat (snd x - e) + fst y * 2 ^ nat (snd y - e), e))"

definition fsub :: "dyadic \<Rightarrow> dyadic \<Rightarrow> dyadic" where
  "fsub x y = fadd x (- fst y, snd y)"

text \<open>
  Division: the quotient of the significands to at least 55 bits and, below them, one bit
  that tells whether a remainder is left; then the rounding. (Division by zero has no
  finite result.)
\<close>

definition fdiv :: "dyadic \<Rightarrow> dyadic \<Rightarrow> dyadic" where
  "fdiv x y =
     (if fst y = 0 then (0, 0)
      else
        let k = nat (55 + bits (nat \<bar>fst y\<bar>));
            n = \<bar>fst x\<bar> * 2 ^ k;
            q = n div \<bar>fst y\<bar>;
            st = (if n mod \<bar>fst y\<bar> = 0 then 0 else 1)
        in round53 (sgn (fst x) * sgn (fst y) * (2 * q + st), snd x - snd y - int k - 1))"

definition fless :: "dyadic \<Rightarrow> dyadic \<Rightarrow> bool" where
  "fless x y =
     (let e = min (snd x) (snd y)
      in fst x * 2 ^ nat (snd x - e) < fst y * 2 ^ nat (snd y - e))"

text \<open>The integer part, rounded towards zero, and the least integer not below.\<close>

definition ftrunc :: "dyadic \<Rightarrow> int" where
  "ftrunc x =
     (if 0 \<le> snd x then fst x * 2 ^ nat (snd x)
      else sgn (fst x) * (\<bar>fst x\<bar> div 2 ^ nat (- snd x)))"

definition fceil :: "dyadic \<Rightarrow> dyadic" where
  "fceil x = (if 0 \<le> snd x then x else (- ((- fst x) div 2 ^ nat (- snd x)), 0))"

text \<open>\<open>math.Frexp\<close> of a positive value: a fraction in \<open>[1/2, 1)\<close> and an exponent.\<close>

definition Frexp :: "dyadic \<Rightarrow> dyadic \<times> int" where
  "Frexp x = (let b = bits (nat \<bar>fst x\<bar>) in ((fst x, - b), snd x + b))"

text \<open>\<open>math.Log\<close>, for a positive argument.\<close>

definition go_Log :: "dyadic \<Rightarrow> dyadic" where
  "go_Log x =
     (if fst x \<le> 0 then (0, 0)
      else
        let Ln2Hi = (2977044471, - 32);
            Ln2Lo = (3691024475790907, - 84);
            L1 = (6004799503160723, - 53);
            L2 = (1801439850921601, - 52);
            L3 = (5146971033736025, - 54);
            L4 = (8006390766270639, - 55);
            L5 = (3275661152453103, - 54);
            L6 = (5517391500461727, - 55);
            L7 = (1332903234475153, - 53);
            Sqrt2_half = (6369051672525773, - 53);
            (f0, k0) = Frexp x;
            (f1, ki) = (if fless f0 Sqrt2_half then (fmul f0 (2, 0), k0 - 1) else (f0, k0));
            f = fsub f1 (1, 0);
            k = (ki, 0);
            s = fdiv f (fadd (2, 0) f);
            s2 = fmul s s;
            s4 = fmul s2 s2;
            t1 = fmul s2 (fadd L1 (fmul s4 (fadd L3 (fmul s4 (fadd L5 (fmul s4 L7))))));
            t2 = fmul s4 (fadd L2 (fmul s4 (fadd L4 (fmul s4 L6))));
            R = fadd t1 t2;
            hfsq = fmul (fmul (1, - 1) f) f
        in fsub (fmul k Ln2Hi) (fsub (fsub hfsq (fadd (fmul s (fadd hfsq R)) (fmul k Ln2Lo))) f))"

text \<open>
  \<open>math.Pow\<close> for a positive base and a whole non-negative exponent (all that \<open>Key\<close>
  passes): the loop over the bits of the exponent, on fraction and exponent apart.
\<close>

function pow_loop :: "nat \<Rightarrow> dyadic \<Rightarrow> int \<Rightarrow> dyadic \<Rightarrow> int \<Rightarrow> dyadic \<times> int" where
  "pow_loop i x1 xe a1 ae =
     (if i = 0 then (a1, ae)
      else if xe < - 4096 \<or> 4096 < xe then (a1, ae + xe)
      else
        let (a1', ae') = (if odd i then (fmul a1 x1, ae + xe) else (a1, ae));
            x2 = fmul x1 x1;
            (x1', xe') = (if fless x2 (1, - 1) then (fadd x2 x2, 2 * xe - 1) else (x2, 2 * xe))
        in pow_loop (i div 2) x1' xe' a1' ae')"
  by pat_completeness auto
termination
  by (relation "measure (\<lambda>(i, x1, xe, a1, ae). i)") auto

declare pow_loop.simps [simp del]

definition go_Pow :: "dyadic \<Rightarrow> dyadic \<Rightarrow> dyadic" where
  "go_Pow x y =
     (if fst y = 0 \<or> (\<not> fless x (1, 0) \<and> \<not> fless (1, 0) x) then (1, 0)
      else if \<not> fless y (1, 0) \<and> \<not> fless (1, 0) y then x
      else
        let (x1, xe) = Frexp x;
            (a1, ae) = pow_loop (nat (ftrunc y)) x1 xe (1, 0) 0
        in (fst a1, snd a1 + ae))"

definition go64 :: "dyadic runtime" where
  "go64 = \<lparr>float64 = (\<lambda>w. round53 (uint w, 0)),
           uint64 = (\<lambda>x. word_of_int (ftrunc x)),
           quo = fdiv,
           Log = go_Log,
           Ceil = fceil,
           Pow = go_Pow,
           growcap = (\<lambda>old n. max n (2 * old))\<rparr>"

text \<open>
  Two trees built from parameters the specification admits, on which the rounding of
  the logarithms puts the depth one above the exact value: \<open>2^64 - 1\<close> converts to
  \<open>2^64\<close>, the quotients by the block sizes are \<open>2^29\<close> and \<open>125\<close>, and the
  quotients of the logarithms round to \<open>29 + 2^-48\<close> and \<open>3 + 2^-51\<close>.
\<close>

definition pow2_tree :: "dyadic KeyedHashTree" where
  "pow2_tree = New go64 yay_slice xor16 34359738368 18446744073709551615 (2, 0)"

definition pow5_tree :: "dyadic KeyedHashTree" where
  "pow5_tree = New go64 yay_slice xor16 147573952589676413 18446744073709551615 (5, 0)"

section \<open>HMAC-MD5\<close>

text \<open>
  The package's \<open>HMAC\<close> wraps \<open>hmac.New\<close>, and its test passes \<open>md5.New\<close>. Both
  belong to the Go standard library; they are modelled after the documents they
  implement, RFC 2104 and RFC 1321. MD5 computes on 32-bit words, here natural numbers
  below \<open>2^32\<close> with the reduction written out.
\<close>

definition md5_K :: "nat list" where
  "md5_K = [
    0xd76aa478, 0xe8c7b756, 0x242070db, 0xc1bdceee, 0xf57c0faf, 0x4787c62a, 0xa8304613, 0xfd469501,
    0x698098d8, 0x8b44f7af, 0xffff5bb1, 0x895cd7be, 0x6b901122, 0xfd987193, 0xa679438e, 0x49b40821,
    0xf61e2562, 0xc040b340, 0x265e5a51, 0xe9b6c7aa, 0xd62f105d, 0x02441453, 0xd8a1e681, 0xe7d3fbc8,
    0x21e1cde6, 0xc33707d6, 0xf4d50d87, 0x455a14ed, 0xa9e3e905, 0xfcefa3f8, 0x676f02d9, 0x8d2a4c8a,
    0xfffa3942, 0x8771f681, 0x6d9d6122, 0xfde5380c, 0xa4beea44, 0x4bdecfa9, 0xf6bb4b60, 0xbebfbc70,
    0x289b7ec6, 0xeaa127fa, 0xd4ef3085, 0x04881d05, 0xd9d4d039, 0xe6db99e5, 0x1fa27cf8, 0xc4ac5665,
    0xf4292244, 0x432aff97, 0xab9423a7, 0xfc93a039, 0x655b59c3, 0x8f0ccc92, 0xffeff47d, 0x85845dd1,
    0x6fa87e4f, 0xfe2ce6e0, 0xa3014314, 0x4e0811a1, 0xf7537e82, 0xbd3af235, 0x2ad7d2bb, 0xeb86d391]"

definition md5_S :: "nat list" where
  "md5_S = [7, 12, 17, 22, 7, 12, 17, 22, 7, 12, 17, 22, 7, 12, 17, 22,
            5, 9, 14, 20, 5, 9, 14, 20, 5, 9, 14, 20, 5, 9, 14, 20,
            4, 11, 16, 23, 4, 11, 16, 23, 4, 11, 16, 23, 4, 11, 16, 23,
            6, 10, 15, 21, 6, 10, 15, 21, 6, 10, 15, 21, 6, 10, 15, 21]"

definition add32 :: "nat \<Rightarrow> nat \<Rightarrow> nat" where
  "add32 x y = (x + y) mod 4294967296"

definition not32 :: "nat \<Rightarrow> nat" where
  "not32 x = 4294967295 - x"

definition rotl32 :: "nat \<Rightarrow> nat \<Rightarrow> nat" where
  "rotl32 x n = (x * 2 ^ n) mod 4294967296 + x div 2 ^ (32 - n)"

definition md5_F :: "nat \<Rightarrow> nat \<Rightarrow> nat \<Rightarrow> nat \<Rightarrow> nat" where
  "md5_F i b c d =
     (if i < 16 then (b AND c) OR (not32 b AND d)
      else if i < 32 then (d AND b) OR (not32 d AND c)
      else if i < 48 then b XOR c XOR d
      else c XOR (b OR not32 d))"

definition md5_g :: "nat \<Rightarrow> nat" where
  "md5_g i =
     (if i < 16 then i
      else if i < 32 then (5 * i + 1) mod 16
      else if i < 48 then (3 * i + 5) mod 16
      else (7 * i) mod 16)"

type_synonym md5_state = "nat \<times> nat \<times> nat \<times> nat"

fun md5_step :: "nat list \<Rightarrow> md5_state \<Rightarrow> nat \<Rightarrow> md5_state" where
  "md5_step m (a, b, c, d) i =
     (d,
      add32 b (rotl32 (add32 (add32 (add32 (md5_F i b c d) a) (md5_K ! i)) (m ! md5_g i))
                 (md5_S ! i)),
      b, c)"

text \<open>The sixteen little-endian words of a 64-byte block.\<close>

fun words_of :: "byte list \<Rightarrow> nat list" where
  "words_of (b0 # b1 # b2 # b3 # bs) =
     (unat b0 + 256 * unat b1 + 65536 * unat b2 + 16777216 * unat b3) # words_of bs"
| "words_of bs = []"

definition md5_block :: "md5_state \<Rightarrow> byte list \<Rightarrow> md5_state" where
  "md5_block s blk =
     (case s of (a0, b0, c0, d0) \<Rightarrow>
        (case foldl (md5_step (words_of blk)) s [0..<64] of (a, b, c, d) \<Rightarrow>
           (add32 a0 a, add32 b0 b, add32 c0 c, add32 d0 d)))"

function md5_blocks :: "md5_state \<Rightarrow> byte list \<Rightarrow> md5_state" where
  "md5_blocks s bs =
     (if length bs < 64 then s else md5_blocks (md5_block s (take 64 bs)) (drop 64 bs))"
  by pat_completeness auto
termination
  by (relation "measure (\<lambda>(s, bs). length bs)") auto

declare md5_blocks.simps [simp del]

definition bytes32 :: "nat \<Rightarrow> byte list" where
  "bytes32 w = [of_nat (w mod 256), of_nat (w div 256 mod 256), of_nat (w div 65536 mod 256),
                of_nat (w div 16777216 mod 256)]"

definition md5_pad :: "byte list \<Rightarrow> byte list" where
  "md5_pad msg =
     msg @ [0x80] @ replicate ((119 - length msg mod 64) mod 64) 0 @
     bytes32 (8 * length msg mod 4294967296) @ bytes32 (8 * length msg div 4294967296 mod 4294967296)"

definition md5_init :: md5_state where
  "md5_init = (0x67452301, 0xefcdab89, 0x98badcfe, 0x10325476)"

definition md5_digest :: "md5_state \<Rightarrow> byte list" where
  "md5_digest s = (case s of (a, b, c, d) \<Rightarrow> bytes32 a @ bytes32 b @ bytes32 c @ bytes32 d)"

definition md5 :: "byte list \<Rightarrow> byte list" where
  "md5 msg = md5_digest (md5_blocks md5_init (md5_pad msg))"

text \<open>The padding of an 80-byte message: the byte 0x80, 39 zeros, the bit length 640.\<close>

definition md5_tail80 :: "byte list" where
  "md5_tail80 = 0x80 # replicate 39 0 @ [0x80, 2, 0, 0, 0, 0, 0, 0]"

text \<open>
  What \<open>hmac.New\<close> needs of a hash: its function and its block size. A key longer than
  a block is hashed first; the key is padded with zeros to a block.
\<close>

record hashAlg =
  digest :: "byte list \<Rightarrow> byte list"
  block_size :: nat

definition md5_New :: hashAlg where
  "md5_New = \<lparr>digest = md5, block_size = 64\<rparr>"

definition hmac :: "hashAlg \<Rightarrow> byte list \<Rightarrow> byte list \<Rightarrow> byte list" where
  "hmac h key msg =
     (let k = (if block_size h < length key then digest h key else key);
          kp = k @ replicate (block_size h - length k) 0;
          ipad = map (\<lambda>b. b XOR 0x36) kp;
          opad = map (\<lambda>b. b XOR 0x5c) kp
      in digest h (opad @ digest h (ipad @ msg)))"

text \<open>\<open>HMAC\<close> of the package: the keyed hash made of a hash algorithm.\<close>

definition HMAC :: "hashAlg \<Rightarrow> byte list \<Rightarrow> byte list \<Rightarrow> byte list" where
  "HMAC a = (\<lambda>key. hmac a key)"

text \<open>
  The package test \<open>TestKey\<close>: the tree
  \<open>New([]byte("yay"), HMAC(md5.New), 2, 16, 8)\<close> and the table of the sixteen keys it
  expects for the offsets 0 to 15.
\<close>

definition test_tree :: "real KeyedHashTree" where
  "test_tree = New exact yay_slice (HMAC md5_New) 2 16 8"

definition test_keys :: "byte list list" where
  "test_keys = [
    [0x3a, 0xbe, 0x2f, 0xa3, 0xa0, 0xac, 0x9b, 0xa2, 0xa7, 0x4d, 0x17, 0xd4, 0x10, 0xb1, 0x30, 0x06],
    [0x3a, 0xbe, 0x2f, 0xa3, 0xa0, 0xac, 0x9b, 0xa2, 0xa7, 0x4d, 0x17, 0xd4, 0x10, 0xb1, 0x30, 0x06],
    [0x00, 0x0e, 0x19, 0x5a, 0x57, 0x67, 0xc8, 0x69, 0xdb, 0xb7, 0x60, 0xc7, 0xae, 0xf7, 0x45, 0xe5],
    [0x00, 0x0e, 0x19, 0x5a, 0x57, 0x67, 0xc8, 0x69, 0xdb, 0xb7, 0x60, 0xc7, 0xae, 0xf7, 0x45, 0xe5],
    [0x47, 0xd6, 0x23, 0x46, 0x88, 0x52, 0x11, 0xe5, 0xb1, 0xba, 0x78, 0x3c, 0x9d, 0x49, 0x81, 0x9d],
    [0x47, 0xd6, 0x23, 0x46, 0x88, 0x52, 0x11, 0xe5, 0xb1, 0xba, 0x78, 0x3c, 0x9d, 0x49, 0x81, 0x9d],
    [0x36, 0x65, 0xbc, 0xec, 0x2f, 0x34, 0x0b, 0x96, 0x6f, 0xb2, 0x70, 0xeb, 0x4b, 0xed, 0x22, 0x55],
    [0x36, 0x65, 0xbc, 0xec, 0x2f, 0x34, 0x0b, 0x96, 0x6f, 0xb2, 0x70, 0xeb, 0x4b, 0xed, 0x22, 0x55],
    [0x81, 0x15, 0xf5, 0x6e, 0x04, 0xd4, 0xe8, 0x4a, 0x9b, 0x8e, 0x45, 0xb8, 0x2f, 0xad, 0xd1, 0x55],
    [0x81, 0x15, 0xf5, 0x6e, 0x04, 0xd4, 0xe8, 0x4a, 0x9b, 0x8e, 0x45, 0xb8, 0x2f, 0xad, 0xd1, 0x55],
    [0xa6, 0x07, 0x3d, 0x82, 0x8e, 0x64, 0x27, 0x5e, 0x2a, 0x1e, 0x91, 0xcd, 0xef, 0x2f, 0xe9, 0x81],
    [0xa6, 0x07, 0x3d, 0x82, 0x8e, 0x64, 0x27, 0x5e, 0x2a, 0x1e, 0x91, 0xcd, 0xef, 0x2f, 0xe9, 0x81],
    [0x4d, 0xbd, 0x5a, 0x62, 0x2d, 0x23, 0xd5, 0x27, 0x92, 0x8e, 0x69, 0x1d, 0x3d, 0xfe, 0xb1, 0x20],
    [0x4d, 0xbd, 0x5a, 0x62, 0x2d, 0x23, 0xd5, 0x27, 0x92, 0x8e, 0x69, 0x1d, 0x3d, 0xfe, 0xb1, 0x20],
    [0xe0, 0x09, 0x48, 0xcc, 0x3a, 0x86, 0xcc, 0x31, 0x90, 0x73, 0xe1, 0x3f, 0x63, 0x75, 0x3d, 0xdf],
    [0xe0, 0x09, 0x48, 0xcc, 0x3a, 0x86, 0xcc, 0x31, 0x90, 0x73, 0xe1, 0x3f, 0x63, 0x75, 0x3d, 0xdf]]"

section \<open>The heap operations\<close>

lemma length_store_at [simp]: "length (store_at a p bs h) = length h"
  by (simp add: store_at_def)

lemma store_at_other [simp]: "a' \<noteq> a \<Longrightarrow> store_at a p bs h ! a' = h ! a'"
  by (simp add: store_at_def)

lemma store_at_same:
  "a < length h \<Longrightarrow> store_at a p bs h ! a = take p (h ! a) @ bs @ drop (p + length bs) (h ! a)"
  by (simp add: store_at_def)

lemma length_le64 [simp]: "length (le64 v) = 8"
  by (simp add: le64_def)

lemma unat_succ: "i < (d::u64) \<Longrightarrow> unat (i + 1) = Suc (unat i)"
proof -
  assume "i < d"
  then have "unat i < unat d" by (simp add: word_less_nat_alt)
  moreover have "unat d < 2 ^ 64" using unsigned_less [of d] by simp
  ultimately show ?thesis by (simp add: unat_word_ariths)
qed

lemma put_buf:
  assumes "buf_ok n0 h buf"
  shows "PutUint64 (slice_from buf 8) y (PutUint64 buf i h) ! arr buf = le64 i @ le64 y"
  using assms by (simp add: buf_ok_def PutUint64_def slice_from_def store_at_same)

lemma put_buf_other:
  "a \<noteq> arr buf \<Longrightarrow> PutUint64 (slice_from buf 8) y (PutUint64 buf i h) ! a = h ! a"
  by (simp add: PutUint64_def slice_from_def)

lemma put_buf_length [simp]:
  "length (PutUint64 (slice_from buf 8) y (PutUint64 buf i h)) = length h"
  by (simp add: PutUint64_def)

lemma put_buf_bytes:
  assumes "buf_ok n0 h buf"
  shows "bytes_of (PutUint64 (slice_from buf 8) y (PutUint64 buf i h)) buf = le64 i @ le64 y"
  using assms put_buf [OF assms, of y i] by (simp add: bytes_of_def buf_ok_def)

text \<open>Appending a digest to the emptied key slice.\<close>

lemma append_digest:
  assumes k: "key_ok n0 h buf k" and b: "buf_ok n0 h buf"
    and a: "append_slice R (slice_to k 0) d h = (k', h')"
  shows "bytes_of h' k' = d" "key_ok n0 h' buf k'" "buf_ok n0 h' buf"
    "length h \<le> length h'" "\<forall>a<n0. h' ! a = h ! a" "h' ! arr buf = h ! arr buf"
proof -
  show "bytes_of h' k' = d" 
    using k b a by (auto simp: append_slice_def slice_to_def Let_def bytes_of_def key_ok_def store_at_same split: if_splits)
  show "key_ok n0 h' buf k'" 
    using k b a by (auto simp: append_slice_def slice_to_def Let_def key_ok_def buf_ok_def store_at_same nth_append split: if_splits)
  show "buf_ok n0 h' buf" 
    using k b a by (auto simp: append_slice_def slice_to_def Let_def key_ok_def buf_ok_def store_at_same nth_append split: if_splits)
  show "length h \<le> length h'" 
    using k b a by (auto simp: append_slice_def slice_to_def Let_def split: if_splits)
  show "\<forall>a<n0. h' ! a = h ! a"
    using k b a by (auto simp: append_slice_def slice_to_def Let_def key_ok_def buf_ok_def nth_append split: if_splits)
  show "h' ! arr buf = h ! arr buf"
    using k b a by (auto simp: append_slice_def slice_to_def Let_def key_ok_def buf_ok_def nth_append split: if_splits)
qed


lemma upt_word_step:
  assumes "i < (d::u64)"
  shows "[unat i..<unat d] = unat i # [unat (i + 1)..<unat d]"
  using assms by (simp add: upt_conv_Cons word_less_nat_alt unat_succ [OF assms])

lemma Key_loop_inv:
  assumes "buf_ok n0 (mem \<sigma>) buf" "key_ok n0 (mem \<sigma>) buf k"
    and "Key_loop R offset buf i k \<sigma> = (r, \<sigma>')"
  shows "tree \<sigma>' = tree \<sigma> \<and> length (mem \<sigma>) \<le> length (mem \<sigma>') \<and>
         (\<forall>a<n0. mem \<sigma>' ! a = mem \<sigma> ! a) \<and>
         (\<forall>k'. r = Inr k' \<longrightarrow> key_ok n0 (mem \<sigma>') buf k') \<and>
         (\<exists>tr. walk R (tree \<sigma>) offset [unat i..<unat (depth (tree \<sigma>))] (bytes_of (mem \<sigma>) k)
                 = (result_bytes (mem \<sigma>') r, tr) \<and> calls \<sigma>' = calls \<sigma> @ tr)"
  using assms
proof (induction R offset buf i k \<sigma> rule: Key_loop.induct)
  case (1 R offset buf i k \<sigma>)
  show ?case
  proof (cases "i < depth (tree \<sigma>)")
    case False
    then have e: "[unat i..<unat (depth (tree \<sigma>))] = []"
      by (simp add: word_less_nat_alt)
    from False "1.prems"(3) have "r = Inr k" "\<sigma>' = \<sigma>"
      by (simp_all add: Key_loop.simps)
    then show ?thesis using "1.prems"(2) by (simp add: e result_bytes_def)
  next
    case True
    note step = upt_word_step [OF True]
    show ?thesis
    proof (cases "levelBlockSize R (tree \<sigma>) i = 0")
      case z: True
      from True z "1.prems"(3) have "r = Inl DivideByZero" "\<sigma>' = \<sigma>"
        by (simp_all add: Key_loop.simps)
      then show ?thesis using z by (simp add: step result_bytes_def)
    next
      case nz: False
      define y where "y = offset div levelBlockSize R (tree \<sigma>) i"
      define m2 where "m2 = PutUint64 (slice_from buf 8) y (PutUint64 buf i (mem \<sigma>))"
      define key where "key = bytes_of m2 k"
      define msg where "msg = bytes_of m2 buf"
      obtain k' m3 where ap: "append_slice R (slice_to k 0) (alg (tree \<sigma>) key msg) m2 = (k', m3)"
        by (cases "append_slice R (slice_to k 0) (alg (tree \<sigma>) key msg) m2")
      define \<sigma>3 where "\<sigma>3 = \<sigma>\<lparr>mem := m3, calls := calls \<sigma> @ [(key, msg)]\<rparr>"
      have run: "Key_loop R offset buf (i + 1) k' \<sigma>3 = (r, \<sigma>')"
        using "1.prems"(3) True nz ap
        by (subst (asm) Key_loop.simps) (simp add: Let_def y_def m2_def key_def msg_def \<sigma>3_def)
      have b: "buf_ok n0 (mem \<sigma>) buf" and k: "key_ok n0 (mem \<sigma>) buf k"
        using "1.prems" by simp_all
      have msg: "msg = le64 i @ le64 y"
        unfolding msg_def m2_def by (rule put_buf_bytes [OF b])
      have key: "key = bytes_of (mem \<sigma>) k"
        using k unfolding key_def m2_def by (simp add: bytes_of_def key_ok_def put_buf_other)
      have b2: "buf_ok n0 m2 buf"
        using b put_buf [OF b, of y i] by (simp add: buf_ok_def m2_def)
      have k2: "key_ok n0 m2 buf k"
        using k by (simp add: key_ok_def m2_def put_buf_other)
      have old2: "\<forall>a<n0. m2 ! a = mem \<sigma> ! a"
        using b by (simp add: buf_ok_def m2_def put_buf_other)
      note ad = append_digest [OF k2 b2 ap]
      have b3: "buf_ok n0 (mem \<sigma>3) buf" and k3: "key_ok n0 (mem \<sigma>3) buf k'"
        using ad by (simp_all add: \<sigma>3_def)
      have IH: "tree \<sigma>' = tree \<sigma>3 \<and> length (mem \<sigma>3) \<le> length (mem \<sigma>') \<and>
         (\<forall>a<n0. mem \<sigma>' ! a = mem \<sigma>3 ! a) \<and>
         (\<forall>k'. r = Inr k' \<longrightarrow> key_ok n0 (mem \<sigma>') buf k') \<and>
         (\<exists>tr. walk R (tree \<sigma>3) offset [unat (i + 1)..<unat (depth (tree \<sigma>3))] (bytes_of (mem \<sigma>3) k')
                 = (result_bytes (mem \<sigma>') r, tr) \<and> calls \<sigma>' = calls \<sigma>3 @ tr)"
        using "1.IH" [OF True nz y_def refl, of m2 key msg "(k', m3)" k' m3] ap b3 k3 run
        by (simp add: m2_def key_def msg_def \<sigma>3_def)
      then obtain tr where tr: "walk R (tree \<sigma>) offset [unat (i + 1)..<unat (depth (tree \<sigma>))] (alg (tree \<sigma>) key msg)
                 = (result_bytes (mem \<sigma>') r, tr)" "calls \<sigma>' = calls \<sigma> @ (key, msg) # tr"
        using ad(1) by (auto simp: \<sigma>3_def)
      have "walk R (tree \<sigma>) offset [unat i..<unat (depth (tree \<sigma>))] (bytes_of (mem \<sigma>) k)
             = (result_bytes (mem \<sigma>') r, (key, msg) # tr)"
        using nz tr(1) by (simp add: step Let_def msg y_def key)
      moreover have "length (mem \<sigma>) \<le> length (mem \<sigma>')"
        using IH ad(4) by (simp add: \<sigma>3_def m2_def)
      moreover have "\<forall>a<n0. mem \<sigma>' ! a = mem \<sigma> ! a"
        using IH ad(5) old2 by (simp add: \<sigma>3_def)
      ultimately show ?thesis using IH tr(2) by (simp add: \<sigma>3_def)
    qed
  qed
qed


lemma Key_loop_tree: "tree (snd (Key_loop R offset buf i k \<sigma>)) = tree \<sigma>"
proof (induction R offset buf i k \<sigma> rule: Key_loop.induct)
  case (1 R offset buf i k \<sigma>)
  show ?case
  proof (cases "i < depth (tree \<sigma>) \<and> levelBlockSize R (tree \<sigma>) i \<noteq> 0")
    case False
    then show ?thesis by (subst Key_loop.simps) auto
  next
    case True
    obtain k' m3 where ap: "append_slice R (slice_to k 0) (alg (tree \<sigma>)
         (bytes_of (PutUint64 (slice_from buf 8) (offset div levelBlockSize R (tree \<sigma>) i) (PutUint64 buf i (mem \<sigma>))) k)
         (bytes_of (PutUint64 (slice_from buf 8) (offset div levelBlockSize R (tree \<sigma>) i) (PutUint64 buf i (mem \<sigma>))) buf))
         (PutUint64 (slice_from buf 8) (offset div levelBlockSize R (tree \<sigma>) i) (PutUint64 buf i (mem \<sigma>))) = (k', m3)"
      by (cases "append_slice R (slice_to k 0) (alg (tree \<sigma>)
         (bytes_of (PutUint64 (slice_from buf 8) (offset div levelBlockSize R (tree \<sigma>) i) (PutUint64 buf i (mem \<sigma>))) k)
         (bytes_of (PutUint64 (slice_from buf 8) (offset div levelBlockSize R (tree \<sigma>) i) (PutUint64 buf i (mem \<sigma>))) buf))
         (PutUint64 (slice_from buf 8) (offset div levelBlockSize R (tree \<sigma>) i) (PutUint64 buf i (mem \<sigma>)))")
    from True have a: "i < depth (tree \<sigma>)" and b: "levelBlockSize R (tree \<sigma>) i \<noteq> 0" by simp_all
    show ?thesis
      using "1.IH" [OF a b refl refl refl refl refl ap [symmetric] refl] True ap
      by (subst Key_loop.simps) (simp add: Let_def)
  qed
qed

lemma Key_loop_no_range: "fst (Key_loop R offset buf i k \<sigma>) \<noteq> Inl OffsetOutOfRange"
proof (induction R offset buf i k \<sigma> rule: Key_loop.induct)
  case (1 R offset buf i k \<sigma>)
  show ?case
  proof (cases "i < depth (tree \<sigma>) \<and> levelBlockSize R (tree \<sigma>) i \<noteq> 0")
    case False
    then show ?thesis by (subst Key_loop.simps) auto
  next
    case True
    obtain k' m3 where ap: "append_slice R (slice_to k 0) (alg (tree \<sigma>)
         (bytes_of (PutUint64 (slice_from buf 8) (offset div levelBlockSize R (tree \<sigma>) i) (PutUint64 buf i (mem \<sigma>))) k)
         (bytes_of (PutUint64 (slice_from buf 8) (offset div levelBlockSize R (tree \<sigma>) i) (PutUint64 buf i (mem \<sigma>))) buf))
         (PutUint64 (slice_from buf 8) (offset div levelBlockSize R (tree \<sigma>) i) (PutUint64 buf i (mem \<sigma>))) = (k', m3)"
      by (cases "append_slice R (slice_to k 0) (alg (tree \<sigma>)
         (bytes_of (PutUint64 (slice_from buf 8) (offset div levelBlockSize R (tree \<sigma>) i) (PutUint64 buf i (mem \<sigma>))) k)
         (bytes_of (PutUint64 (slice_from buf 8) (offset div levelBlockSize R (tree \<sigma>) i) (PutUint64 buf i (mem \<sigma>))) buf))
         (PutUint64 (slice_from buf 8) (offset div levelBlockSize R (tree \<sigma>) i) (PutUint64 buf i (mem \<sigma>)))")
    from True have a: "i < depth (tree \<sigma>)" and b: "levelBlockSize R (tree \<sigma>) i \<noteq> 0" by simp_all
    show ?thesis
      using "1.IH" [OF a b refl refl refl refl refl ap [symmetric] refl] True ap
      by (subst Key_loop.simps) (simp add: Let_def)
  qed
qed

lemma Key_tree: "tree (snd (Key R offset \<sigma>)) = tree \<sigma>"
  by (simp add: Key_def Let_def split_beta Key_loop_tree)

lemma Key_range: "(fst (Key R offset \<sigma>) = Inl OffsetOutOfRange) = (maxSize (tree \<sigma>) < offset)"
  by (simp add: Key_def Let_def split_beta Key_loop_no_range)

lemma Key_out_of_range: "maxSize (tree \<sigma>) < offset \<Longrightarrow> Key R offset \<sigma> = (Inl OffsetOutOfRange, \<sigma>)"
  by (simp add: Key_def)

lemma bytes_of_root_length:
  "valid_slice h s \<Longrightarrow> length (bytes_of h s) = len s"
  by (auto simp: valid_slice_def bytes_of_def)

lemma Key_inv:
  assumes v: "valid_slice (mem \<sigma>) (root_key (tree \<sigma>))"
    and le: "offset \<le> maxSize (tree \<sigma>)"
    and run: "Key R offset \<sigma> = (r, \<sigma>')"
  shows "tree \<sigma>' = tree \<sigma>" "length (mem \<sigma>) \<le> length (mem \<sigma>')"
    "\<forall>a<length (mem \<sigma>). mem \<sigma>' ! a = mem \<sigma> ! a"
    "\<forall>k'. r = Inr k' \<longrightarrow> length (mem \<sigma>) \<le> arr k' \<and> arr k' < length (mem \<sigma>') \<and>
        off k' + cap k' \<le> length (mem \<sigma>' ! arr k') \<and> len k' \<le> cap k'"
    "\<exists>tr. derive R (tree \<sigma>) offset (bytes_of (mem \<sigma>) (root_key (tree \<sigma>)))
            = (result_bytes (mem \<sigma>') r, tr) \<and> calls \<sigma>' = calls \<sigma> @ tr"
proof -
  define h where "h = mem \<sigma>"
  define rt where "rt = root_key (tree \<sigma>)"
  define buf where "buf = \<lparr>arr = length h, off = 0, len = 16, cap = 16\<rparr>"
  define k where "k = \<lparr>arr = Suc (length h), off = 0, len = len rt, cap = len rt\<rparr>"
  define m2 where "m2 = (h @ [replicate 16 0]) @ [replicate (len rt) 0]"
  define m3 where "m3 = copy_slice k rt m2"
  define \<sigma>0 where "\<sigma>0 = \<sigma>\<lparr>mem := m3\<rparr>"
  have loop: "Key_loop R offset buf 0 k \<sigma>0 = (r, \<sigma>')"
    using run le
    by (simp add: Key_def make_slice_def Let_def h_def rt_def buf_def k_def m2_def m3_def \<sigma>0_def
        not_less [symmetric])
  have src: "bytes_of m2 rt = bytes_of h rt" "length (bytes_of h rt) = len rt"
    using v by (auto simp: valid_slice_def bytes_of_def m2_def h_def rt_def nth_append)
  have m3k: "m3 ! Suc (length h) = bytes_of h rt"
    using src by (simp add: m3_def copy_slice_def store_at_same k_def m2_def nth_append)
  have m3o: "a \<noteq> Suc (length h) \<Longrightarrow> m3 ! a = m2 ! a" for a
    by (simp add: m3_def copy_slice_def k_def)
  have m3l: "length m3 = length h + 2"
    by (simp add: m3_def copy_slice_def m2_def)
  have b: "buf_ok (length h) (mem \<sigma>0) buf"
    using m3o [of "length h"] by (simp add: buf_ok_def \<sigma>0_def buf_def m3l m2_def nth_append)
  have kk: "key_ok (length h) (mem \<sigma>0) buf k"
    using src by (simp add: key_ok_def \<sigma>0_def buf_def k_def m3l m3k)
  have kb: "bytes_of (mem \<sigma>0) k = bytes_of h rt"
  proof -
    have "bytes_of m3 k = take (len k) (drop (off k) (m3 ! arr k))"
      by (simp add: bytes_of_def)
    then show ?thesis using src(2) by (simp add: \<sigma>0_def k_def m3k)
  qed
  have old: "\<forall>a<length h. m3 ! a = h ! a"
    by (simp add: m3o m2_def nth_append)
  note inv = Key_loop_inv [OF b kk loop]
  show "tree \<sigma>' = tree \<sigma>" using inv by (simp add: \<sigma>0_def)
  show "length (mem \<sigma>) \<le> length (mem \<sigma>')" using inv m3l by (simp add: \<sigma>0_def h_def)
  show "\<forall>a<length (mem \<sigma>). mem \<sigma>' ! a = mem \<sigma> ! a"
    using inv old by (simp add: \<sigma>0_def h_def)
  show "\<forall>k'. r = Inr k' \<longrightarrow> length (mem \<sigma>) \<le> arr k' \<and> arr k' < length (mem \<sigma>') \<and>
        off k' + cap k' \<le> length (mem \<sigma>' ! arr k') \<and> len k' \<le> cap k'"
    using inv by (simp add: key_ok_def h_def)
  show "\<exists>tr. derive R (tree \<sigma>) offset (bytes_of (mem \<sigma>) (root_key (tree \<sigma>)))
            = (result_bytes (mem \<sigma>') r, tr) \<and> calls \<sigma>' = calls \<sigma> @ tr"
    using inv kb by (simp add: derive_def \<sigma>0_def h_def rt_def)
qed

section \<open>Running the program on concrete inputs\<close>

lemma levelBlockSize_power: "levelBlockSize R t i = levelPower R t i * blockSize t"
  by (simp add: levelBlockSize_def levelPower_def Let_def)

lemma Key_bytes_derive:
  assumes "valid_slice (mem \<sigma>) (root_key (tree \<sigma>))" "offset \<le> maxSize (tree \<sigma>)"
  shows "Key_bytes R offset \<sigma> = fst (derive R (tree \<sigma>) offset (bytes_of (mem \<sigma>) (root_key (tree \<sigma>))))"
proof -
  obtain r \<sigma>' where run: "Key R offset \<sigma> = (r, \<sigma>')" by (cases "Key R offset \<sigma>")
  from Key_inv(5) [OF assms run] show ?thesis by (auto simp: Key_bytes_def run)
qed

lemma exact_depth_2_16_8: "depth (New exact key a 2 16 8) = 1"
  by (simp add: New_def exact_def)

lemma exact_depth_eq: "bs \<noteq> 0 \<Longrightarrow> depth (New exact key a bs bs f) = 0"
  by (simp add: New_def exact_def unat_eq_0)

lemma exact_depth_4_1_half: "depth (New exact key a 4 1 (1/2)) = 2"
proof -
  have "ln (1/4 :: real) = ln ((1/2) ^ 2)" by (simp add: power2_eq_square)
  also have "\<dots> = 2 * ln (1/2)" by (simp only: ln_realpow)
  finally have "ln (1/4 :: real) / ln (1/2) = 2" by simp
  then show ?thesis by (simp add: New_def exact_def)
qed

lemma exact_depth_2_128_8: "depth (New exact key a 2 128 8) = 2"
proof -
  have "ln (64 :: real) = ln (8 ^ 2)" by simp
  also have "\<dots> = 2 * ln 8" by (simp only: ln_realpow)
  finally have "ln (64 :: real) / ln 8 = 2" by simp
  then show ?thesis by (simp add: New_def exact_def)
qed

lemma exact_depth_2_4_3half: "depth (New exact key a 2 4 (3/2)) = 2"
proof -
  have p: "0 < ln (3/2 :: real)" by simp
  have "ln (3/2 :: real) < ln 2" by (simp del: ln_less_cancel_iff add: ln_less_cancel_iff)
  then have a: "1 < ln (2::real) / ln (3/2)" using p by (simp add: less_divide_eq)
  have "ln (2::real) \<le> ln ((3/2)^2)" by (simp add: power2_eq_square)
  also have "\<dots> = 2 * ln (3/2)" by (simp only: ln_realpow)
  finally have b: "ln (2::real) / ln (3/2) \<le> 2" using p by (simp add: divide_le_eq)
  from a b have "\<lceil>ln (2::real) / ln (3/2)\<rceil> = 2" by (simp add: ceiling_eq_iff) 
  then show ?thesis by (simp add: New_def exact_def)
qed

lemma New_fields [simp]:
  "root_key (New R key a bs ms f) = key" "alg (New R key a bs ms f) = a"
  "blockSize (New R key a bs ms f) = bs" "maxSize (New R key a bs ms f) = ms"
  "factor (New R key a bs ms f) = f"
  by (simp_all add: New_def)

lemma start_fields [simp]:
  "mem (start t) = [yay]" "tree (start t) = t" "calls (start t) = []"
  by (simp_all add: start_def)

lemma valid_start [simp]: "valid_slice [yay] yay_slice"
  by (simp add: valid_slice_def yay_slice_def yay_def)

lemma bytes_start [simp]: "bytes_of [yay] yay_slice = yay"
  by (simp add: bytes_of_def yay_slice_def yay_def)

lemma exact_ops [simp]:
  "float64 exact w = real (unat w)"
  "uint64 exact x = word_of_int (if 0 \<le> x then \<lfloor>x\<rfloor> else \<lceil>x\<rceil>)"
  "Pow exact x y = (if 0 \<le> y \<and> y = of_int \<lfloor>y\<rfloor> then x ^ nat \<lfloor>y\<rfloor> else x powr y)"
  by (simp_all add: exact_def)

lemma upt_0_2: "[0..<2] = [0, Suc 0]"
  by (simp add: numeral_2_eq_2)

lemma derive_2_16_8_at_3: "derive exact (New exact yay_slice xor16 2 16 8) 3 yay = (Inr (xor16 yay (le64 0 @ le64 1)), [(yay, le64 0 @ le64 1)])"
  by (simp add: derive_def exact_depth_2_16_8 levelBlockSize_power levelPower_def Let_def)

lemma derive_2_4_3half_at_2: "fst (derive exact (New exact yay_slice xor16 2 4 (3/2)) 2 yay) = Inr (xor16 (xor16 yay (le64 0 @ le64 1)) (le64 1 @ le64 1))"
  by (simp add: derive_def exact_depth_2_4_3half levelBlockSize_power levelPower_def Let_def upt_0_2)

lemma spec_Key_2_3half_at_2: "spec_Key xor16 yay 2 (3/2) 2 2 = xor16 (xor16 yay (le64 0 @ le64 0)) (le64 1 @ le64 1)"
  by (simp add: spec_Key_def spec_levelBlockSize_def Let_def upt_0_2)

lemma xor16_differs: "xor16 (xor16 yay (le64 0 @ le64 1)) (le64 1 @ le64 1) \<noteq> xor16 (xor16 yay (le64 0 @ le64 0)) (le64 1 @ le64 1)"
  by code_simp

lemma word_less_succ: "m + 1 \<noteq> 0 \<Longrightarrow> m < m + (1::u64)"
proof -
  assume nz: "m + 1 \<noteq> 0"
  have b: "unat m < 2 ^ 64" using unsigned_less [of m] by simp
  have u: "unat (m + 1) = (unat m + 1) mod 2 ^ 64" by (simp add: unat_word_ariths)
  have "unat m + 1 \<noteq> 2 ^ 64"
  proof
    assume "unat m + 1 = 2 ^ 64"
    then have "unat (m + 1) = 0" using u by simp
    then show False using nz by (simp add: unat_eq_0)
  qed
  then have "unat m + 1 < 2 ^ 64" using b by simp
  then have "unat (m + 1) = unat m + 1" using u by simp
  then show ?thesis by (simp add: word_less_nat_alt)
qed

lemma walk_succeeds:
  "(\<not> isl (fst (walk R t offset js k))) = (\<forall>j\<in>set js. levelBlockSize R t (of_nat j) \<noteq> 0)"
  by (induction js arbitrary: k) (auto simp: Let_def split_beta)

lemma walk_nil_calls: "snd (walk R t offset [] k) = []"
  by simp

lemma Key_outcome:
  assumes "valid_slice (mem \<sigma>) (root_key (tree \<sigma>))" "offset \<le> maxSize (tree \<sigma>)"
  shows "isl (fst (Key R offset \<sigma>)) = isl (fst (derive R (tree \<sigma>) offset (bytes_of (mem \<sigma>) (root_key (tree \<sigma>)))))"
proof -
  obtain r \<sigma>' where run: "Key R offset \<sigma> = (r, \<sigma>')" by (cases "Key R offset \<sigma>")
  from Key_inv(5) [OF assms run] show ?thesis
    by (auto simp: run result_bytes_def split: sum.splits)
qed

section \<open>Properties of the derivation\<close>

lemma Key_frame:
  assumes v: "valid_slice (mem \<sigma>) (root_key (tree \<sigma>))" and run: "Key R offset \<sigma> = (r, \<sigma>')"
  shows "tree \<sigma>' = tree \<sigma>" "length (mem \<sigma>) \<le> length (mem \<sigma>')"
    "\<forall>a<length (mem \<sigma>). mem \<sigma>' ! a = mem \<sigma> ! a"
    "\<not> isl r \<longrightarrow> length (mem \<sigma>) \<le> arr (projr r)"
proof -
  show "tree \<sigma>' = tree \<sigma>" using Key_tree [of R offset \<sigma>] run by simp
  consider "offset \<le> maxSize (tree \<sigma>)" | "maxSize (tree \<sigma>) < offset" by fastforce
  then have "length (mem \<sigma>) \<le> length (mem \<sigma>') \<and> (\<forall>a<length (mem \<sigma>). mem \<sigma>' ! a = mem \<sigma> ! a)
    \<and> (\<not> isl r \<longrightarrow> length (mem \<sigma>) \<le> arr (projr r))"
  proof cases
    case 1
    from Key_inv(2,3,4) [OF v 1 run] show ?thesis by (cases r) auto
  next
    case 2
    then show ?thesis using run by (auto simp: Key_out_of_range)
  qed
  then show "length (mem \<sigma>) \<le> length (mem \<sigma>')" "\<forall>a<length (mem \<sigma>). mem \<sigma>' ! a = mem \<sigma> ! a"
     "\<not> isl r \<longrightarrow> length (mem \<sigma>) \<le> arr (projr r)" by simp_all
qed

lemma frame_slice:
  assumes "valid_slice h s" "length h \<le> length h'" "\<forall>a<length h. h' ! a = h ! a"
  shows "valid_slice h' s" "bytes_of h' s = bytes_of h s"
  using assms by (auto simp: valid_slice_def bytes_of_def)

lemma Key_bytes_range: "maxSize (tree \<sigma>) < offset \<Longrightarrow> Key_bytes R offset \<sigma> = Inl OffsetOutOfRange"
  by (simp add: Key_bytes_def Key_out_of_range result_bytes_def)

lemma Key_bytes_same:
  assumes "valid_slice (mem \<sigma>) (root_key (tree \<sigma>))" "valid_slice (mem \<sigma>2) (root_key (tree \<sigma>2))"
    and "tree \<sigma>2 = tree \<sigma>"
    and "bytes_of (mem \<sigma>2) (root_key (tree \<sigma>2)) = bytes_of (mem \<sigma>) (root_key (tree \<sigma>))"
  shows "Key_bytes R offset \<sigma>2 = Key_bytes R offset \<sigma>"
proof (cases "offset \<le> maxSize (tree \<sigma>)")
  case True
  then show ?thesis using assms by (simp add: Key_bytes_derive)
next
  case False
  then show ?thesis using assms(3) by (simp add: Key_bytes_range not_le)
qed

lemma Key_bytes_2_16_8_at_3:
  "Key_bytes exact 3 (start (New exact yay_slice xor16 2 16 8)) = Inr (xor16 yay (le64 0 @ le64 1))"
  by (simp add: Key_bytes_derive derive_2_16_8_at_3)

lemma walk_length:
  "digest_size (alg t) n \<Longrightarrow> fst (walk R t offset js k) = Inr ks \<Longrightarrow>
     length ks = (if js = [] then length k else n)"
proof (induction js arbitrary: k)
  case Nil
  then show ?case by simp
next
  case (Cons j js)
  from Cons.prems(2) have nz: "levelBlockSize R t (of_nat j) \<noteq> 0"
    by (auto split: if_splits)
  let ?d = "alg t k (le64 (of_nat j) @ le64 (offset div levelBlockSize R t (of_nat j)))"
  from Cons.prems(2) nz have "fst (walk R t offset js ?d) = Inr ks"
    by (simp add: Let_def split_beta)
  from Cons.IH [OF Cons.prems(1) this] Cons.prems(1) show ?case
    by (simp add: digest_size_def)
qed

lemma Key_bytes_Inr_le: "Key_bytes R offset \<sigma> = Inr ks \<Longrightarrow> offset \<le> maxSize (tree \<sigma>)"
  using Key_bytes_range [of \<sigma> offset R] by (cases "offset \<le> maxSize (tree \<sigma>)") auto

lemma Key_bytes_length:
  assumes "digest_size (alg (tree \<sigma>)) n" "valid_slice (mem \<sigma>) (root_key (tree \<sigma>))"
    and "Key_bytes R offset \<sigma> = Inr ks"
  shows "length ks = (if depth (tree \<sigma>) = 0 then len (root_key (tree \<sigma>)) else n)"
proof -
  have le: "offset \<le> maxSize (tree \<sigma>)" by (rule Key_bytes_Inr_le [OF assms(3)])
  have "fst (walk R (tree \<sigma>) offset [0..<unat (depth (tree \<sigma>))] (bytes_of (mem \<sigma>) (root_key (tree \<sigma>)))) = Inr ks"
    using assms(3) Key_bytes_derive [OF assms(2) le, of R] by (simp add: derive_def)
  from walk_length [OF assms(1) this] show ?thesis
    by (simp add: bytes_of_root_length [OF assms(2)] unat_eq_0)
qed

lemma digest_size_xor16: "digest_size xor16 16"
  by (auto simp: digest_size_def xor16_def pad16_def)

lemma Key_bytes_2_2_8_at_0:
  "Key_bytes exact 0 (start (New exact yay_slice xor16 2 2 8)) = Inr yay"
  by (simp add: Key_bytes_derive derive_def exact_depth_eq)

lemma level_div:
  assumes nw: "unat p * unat B < 2 ^ 64" and eq: "o1 div B = o2 div (B::u64)"
  shows "o1 div (p * B) = o2 div (p * B)"
proof -
  have m: "unat (p * B) = unat B * unat p"
    using nw by (simp add: unat_word_ariths mult.commute)
  have "unat (o1 div (p * B)) = unat o1 div unat B div unat p"
    by (simp only: unat_div m div_mult2_eq)
  also have "\<dots> = unat (o1 div B) div unat p" by (simp add: unat_div)
  also have "\<dots> = unat (o2 div B) div unat p" by (simp add: eq)
  also have "\<dots> = unat o2 div unat B div unat p" by (simp add: unat_div)
  also have "\<dots> = unat (o2 div (p * B))"
    by (simp only: unat_div m div_mult2_eq)
  finally show ?thesis by (simp add: word_unat_eq_iff)
qed

lemma walk_same:
  "(\<forall>j\<in>set js. o1 div levelBlockSize R t (of_nat j) = o2 div levelBlockSize R t (of_nat j)) \<Longrightarrow>
     walk R t o1 js k = walk R t o2 js k"
  by (induction js arbitrary: k) (simp_all add: Let_def)

lemma Key_bytes_block:
  assumes v: "valid_slice (mem \<sigma>) (root_key (tree \<sigma>))" and nw: "no_wrap R (tree \<sigma>)"
    and le: "o1 \<le> maxSize (tree \<sigma>)" "o2 \<le> maxSize (tree \<sigma>)"
    and eq: "o1 div blockSize (tree \<sigma>) = o2 div blockSize (tree \<sigma>)"
  shows "Key_bytes R o1 \<sigma> = Key_bytes R o2 \<sigma>"
proof -
  have "\<forall>j\<in>set [0..<unat (depth (tree \<sigma>))].
     o1 div levelBlockSize R (tree \<sigma>) (of_nat j) = o2 div levelBlockSize R (tree \<sigma>) (of_nat j)"
    using nw eq by (auto simp: no_wrap_def levelBlockSize_power intro: level_div)
  from walk_same [OF this] show ?thesis
    by (simp add: Key_bytes_derive v le derive_def)
qed

text \<open>A walk fails in one way only: a level with block size 0.\<close>

lemma walk_fails: "isl (fst (walk R t offset js k)) \<Longrightarrow> fst (walk R t offset js k) = Inl DivideByZero"
  by (induction js arbitrary: k) (auto simp: Let_def split_beta split: if_splits)

lemma Key_fails:
  assumes "valid_slice (mem \<sigma>) (root_key (tree \<sigma>))" "offset \<le> maxSize (tree \<sigma>)"
    and "isl (fst (Key R offset \<sigma>))"
  shows "fst (Key R offset \<sigma>) = Inl DivideByZero"
proof -
  obtain r \<sigma>' where run: "Key R offset \<sigma> = (r, \<sigma>')" by (cases "Key R offset \<sigma>")
  from assms(3) run obtain e where e: "r = Inl e" by (cases r) auto
  from Key_inv(5) [OF assms(1,2) run] e
  have w: "fst (derive R (tree \<sigma>) offset (bytes_of (mem \<sigma>) (root_key (tree \<sigma>)))) = Inl e"
    by (auto simp: result_bytes_def)
  then have "isl (fst (walk R (tree \<sigma>) offset [0..<unat (depth (tree \<sigma>))] (bytes_of (mem \<sigma>) (root_key (tree \<sigma>)))))"
    by (simp add: derive_def)
  from walk_fails [OF this] w have "e = DivideByZero" by (simp add: derive_def)
  then show ?thesis by (simp add: run e)
qed

text \<open>Where nothing wraps, a product of non-zero factors is not zero.\<close>

lemma levels_positive:
  assumes B: "blockSize t \<noteq> 0" and p: "\<forall>i < unat (depth t). levelPower R t (of_nat i) \<noteq> 0"
    and nw: "no_wrap R t" and i: "i < unat (depth t)"
  shows "levelBlockSize R t (of_nat i) \<noteq> 0"
proof -
  have "unat (levelPower R t (of_nat i)) * unat (blockSize t) < 2 ^ 64"
    using nw i by (simp add: no_wrap_def)
  then have "unat (levelBlockSize R t (of_nat i)) = unat (levelPower R t (of_nat i)) * unat (blockSize t)"
    by (simp add: levelBlockSize_power unat_word_ariths)
  moreover have "unat (levelPower R t (of_nat i)) \<noteq> 0" "unat (blockSize t) \<noteq> 0"
    using p i B by (simp_all add: unat_eq_0)
  ultimately have "unat (levelBlockSize R t (of_nat i)) \<noteq> 0" by simp
  then show ?thesis by (simp add: unat_eq_0)
qed

text \<open>
  With exact arithmetic the truncated power of a factor above 1 is not 0, as long as the
  power is below \<open>2^64\<close>.
\<close>

lemma exact_power_positive:
  fixes f :: real
  assumes f: "1 < f" and b: "f ^ unat (depth t - i - 1) < 2 ^ 64" and ft: "factor t = f"
  shows "levelPower exact t i \<noteq> 0"
proof -
  let ?n = "unat (depth t - i - 1)"
  have one: "1 \<le> f ^ ?n" using f by (simp add: one_le_power)
  then have lo: "1 \<le> \<lfloor>f ^ ?n\<rfloor>" by simp
  have hi: "\<lfloor>f ^ ?n\<rfloor> < 2 ^ 64"
  proof -
    have "real_of_int \<lfloor>f ^ ?n\<rfloor> \<le> f ^ ?n" by simp
    also have "\<dots> < 2 ^ 64" by (rule b)
    finally have "real_of_int \<lfloor>f ^ ?n\<rfloor> < real_of_int (2 ^ 64)" by simp
    then show ?thesis by (simp only: of_int_less_iff)
  qed
  have "\<not> (2 :: int) ^ 64 dvd \<lfloor>f ^ ?n\<rfloor>"
  proof
    assume "(2 :: int) ^ 64 dvd \<lfloor>f ^ ?n\<rfloor>"
    then have "(2 :: int) ^ 64 \<le> \<lfloor>f ^ ?n\<rfloor>" using lo by (intro zdvd_imp_le) simp_all
    with hi show False by simp
  qed
  then have "(word_of_int \<lfloor>f ^ ?n\<rfloor> :: u64) \<noteq> 0"
    by (simp add: word_of_int_eq_0_iff)
  moreover have "levelPower exact t i = word_of_int \<lfloor>f ^ ?n\<rfloor>"
  proof -
    have fl: "\<lfloor>real ?n\<rfloor> = int ?n" by (simp only: floor_of_nat)
    have p: "Pow exact f (float64 exact (depth t - i - 1)) = f ^ ?n"
      unfolding exact_ops fl
      by (simp only: of_nat_0_le_iff of_int_of_nat_eq simp_thms if_True nat_int)
    have nn: "0 \<le> f ^ ?n" using one by simp
    have "levelPower exact t i = uint64 exact (f ^ ?n)"
      by (simp only: levelPower_def ft p)
    also have "\<dots> = word_of_int \<lfloor>f ^ ?n\<rfloor>"
      by (simp only: exact_ops nn if_True)
    finally show ?thesis .
  qed
  ultimately show ?thesis by simp
qed

lemma all_less_2: "(\<forall>i<2::nat. P i) = (P 0 \<and> P 1)"
  by (auto simp: less_2_cases_iff)

lemma le64_floor:
  assumes m: "unat L = m" and nz: "L \<noteq> 0"
  shows "(of_int \<lfloor>real (unat x) / real m\<rfloor> :: u64) = x div L"
proof -
  have "\<lfloor>real (unat x) / real m\<rfloor> = int (unat x div m)"
    by (rule floor_divide_of_nat_eq)
  also have "\<dots> = int (unat (x div L))" by (simp add: unat_div m)
  finally show ?thesis by simp
qed

lemma walk_spec:
  assumes wf: "whole_factor R t F" and F: "0 < F" and B: "blockSize t \<noteq> 0"
    and fit: "F ^ (unat (depth t) - 1) * unat (blockSize t) < 2 ^ 64"
  shows "\<forall>j\<in>set js. j < unat (depth t) \<Longrightarrow>
    fst (walk R t offset js k)
      = Inr (spec_walk (alg t) (unat (blockSize t)) (real F) (unat (depth t)) (unat offset) js k)"
proof (induction js arbitrary: k)
  case Nil
  then show ?case by simp
next
  case (Cons j js)
  let ?d = "unat (depth t)"
  let ?L = "levelBlockSize R t (of_nat j)"
  let ?m = "F ^ (?d - j - 1) * unat (blockSize t)"
  from Cons.prems have j: "j < ?d" by simp
  have p: "unat (levelPower R t (of_nat j)) = F ^ (?d - j - 1)"
    using wf j by (simp add: whole_factor_def)
  have "F ^ (?d - j - 1) \<le> F ^ (?d - 1)"
    using F by (intro power_increasing) simp_all
  then have "?m \<le> F ^ (?d - 1) * unat (blockSize t)" by (rule mult_right_mono) simp
  then have lt: "?m < 2 ^ 64" using fit by (rule le_less_trans)
  have m: "unat ?L = ?m"
    using lt p by (simp add: levelBlockSize_power unat_word_ariths)
  have "0 < unat (blockSize t)" using B by (simp add: unat_gt_0)
  then have "0 < ?m" using F by simp
  then have nz: "?L \<noteq> 0" using m by (metis less_numeral_extra(3) unat_0)
  have lev: "spec_levelBlockSize (unat (blockSize t)) (real F) (?d - j) = real ?m"
    by (simp add: spec_levelBlockSize_def mult.commute)
  have y: "(of_int \<lfloor>real (unat offset) / spec_levelBlockSize (unat (blockSize t)) (real F) (?d - j)\<rfloor> :: u64)
            = offset div ?L"
    unfolding lev by (rule le64_floor [OF m nz])
  from Cons.prems have "\<forall>j\<in>set js. j < ?d" by simp
  from Cons.IH [OF this] nz y show ?case
    by (simp add: Let_def split_beta)
qed

lemma Key_bytes_spec:
  assumes v: "valid_slice (mem \<sigma>) (root_key (tree \<sigma>))" and le: "offset \<le> maxSize (tree \<sigma>)"
    and wf: "whole_factor R (tree \<sigma>) F" and F: "0 < F" and B: "blockSize (tree \<sigma>) \<noteq> 0"
    and fit: "F ^ (unat (depth (tree \<sigma>)) - 1) * unat (blockSize (tree \<sigma>)) < 2 ^ 64"
  shows "Key_bytes R offset \<sigma> =
     Inr (spec_Key (alg (tree \<sigma>)) (bytes_of (mem \<sigma>) (root_key (tree \<sigma>)))
            (unat (blockSize (tree \<sigma>))) (real F) (unat (depth (tree \<sigma>))) (unat offset))"
  using walk_spec [OF wf F B fit, of "[0..<unat (depth (tree \<sigma>))]" offset]
  by (simp add: Key_bytes_derive [OF v le] derive_def spec_Key_def)

section \<open>Evaluating HMAC-MD5\<close>

lemma upt64: "[0..<64] = [0..<16] @ [16..<32] @ [32..<48] @ [48..<64]"
  by code_simp

lemma upt_round1: "[0..<16] = [0, 1, 2, 3, 4, 5, 6, 7, 8, 9, 10, 11, 12, 13, 14, 15]"
  by code_simp

lemma upt_round2: "[16..<32] = [16, 17, 18, 19, 20, 21, 22, 23, 24, 25, 26, 27, 28, 29, 30, 31]"
  by code_simp

lemma upt_round3: "[32..<48] = [32, 33, 34, 35, 36, 37, 38, 39, 40, 41, 42, 43, 44, 45, 46, 47]"
  by code_simp

lemma upt_round4: "[48..<64] = [48, 49, 50, 51, 52, 53, 54, 55, 56, 57, 58, 59, 60, 61, 62, 63]"
  by code_simp

lemmas md5_eval =
  md5_block_def upt64 upt_round1 upt_round2 upt_round3 upt_round4 md5_F_def md5_g_def md5_K_def md5_S_def rotl32_def add32_def not32_def

lemma replicate_39: "replicate 39 (0::byte) = [0, 0, 0, 0, 0, 0, 0, 0, 0, 0, 0, 0, 0, 0, 0, 0, 0, 0, 0, 0, 0, 0, 0, 0, 0, 0, 0, 0, 0, 0, 0, 0, 0, 0, 0, 0, 0, 0, 0]"
  by code_simp

lemma replicate_61: "replicate 61 (0::byte) = [0, 0, 0, 0, 0, 0, 0, 0, 0, 0, 0, 0, 0, 0, 0, 0, 0, 0, 0, 0, 0, 0, 0, 0, 0, 0, 0, 0, 0, 0, 0, 0, 0, 0, 0, 0, 0, 0, 0, 0, 0, 0, 0, 0, 0, 0, 0, 0, 0, 0, 0, 0, 0, 0, 0, 0, 0, 0, 0, 0, 0]"
  by code_simp

lemma length_bytes32 [simp]: "length (bytes32 w) = 4"
  by (simp add: bytes32_def)

lemma length_md5_digest [simp]: "length (md5_digest s) = 16"
  by (cases s) (simp add: md5_digest_def)

lemma md5_blocks_short: "length bs < 64 \<Longrightarrow> md5_blocks s bs = s"
  by (simp add: md5_blocks.simps)

lemma md5_blocks_app:
  "length b = 64 \<Longrightarrow> md5_blocks s (b @ bs) = md5_blocks (md5_block s b) bs"
  by (subst md5_blocks.simps) simp

text \<open>An 80-byte message: one full block, then 16 bytes and the padding.\<close>

lemma md5_80:
  assumes "length b = 64" "length m = 16"
  shows "md5 (b @ m) = md5_digest (md5_block (md5_block md5_init b) (m @ md5_tail80))"
proof -
  have p: "md5_pad (b @ m) = b @ (m @ md5_tail80) @ []"
    using assms by (simp add: md5_pad_def bytes32_def md5_tail80_def replicate_39)
  have l: "length (m @ md5_tail80) = 64"
    using assms by (simp add: md5_tail80_def)
  show ?thesis
    unfolding md5_def p
    by (simp only: md5_blocks_app [OF assms(1)] md5_blocks_app [OF l]) (simp add: md5_blocks_short)
qed

lemma hmac_md5_16:
  assumes "length key \<le> 64" "length msg = 16"
  shows "hmac md5_New key msg =
     md5_digest (md5_block (md5_block md5_init (map (\<lambda>b. b XOR 0x5c) (key @ replicate (64 - length key) 0)))
       (md5_digest (md5_block (md5_block md5_init (map (\<lambda>b. b XOR 0x36) (key @ replicate (64 - length key) 0)))
          (msg @ md5_tail80)) @ md5_tail80))"
proof -
  let ?kp = "key @ replicate (64 - length key) 0"
  have li: "length (map (\<lambda>b. b XOR 0x36) ?kp) = 64" and lo: "length (map (\<lambda>b. b XOR 0x5c) ?kp) = 64"
    using assms by simp_all
  have "hmac md5_New key msg =
          md5 (map (\<lambda>b. b XOR 0x5c) ?kp @ md5 (map (\<lambda>b. b XOR 0x36) ?kp @ msg))"
    using assms by (simp add: hmac_def md5_New_def Let_def del: map_append)
  also have "\<dots> = md5 (map (\<lambda>b. b XOR 0x5c) ?kp @
          md5_digest (md5_block (md5_block md5_init (map (\<lambda>b. b XOR 0x36) ?kp)) (msg @ md5_tail80)))"
    by (simp only: md5_80 [OF li assms(2)])
  also have "\<dots> = md5_digest (md5_block (md5_block md5_init (map (\<lambda>b. b XOR 0x5c) ?kp))
       (md5_digest (md5_block (md5_block md5_init (map (\<lambda>b. b XOR 0x36) ?kp)) (msg @ md5_tail80)) @ md5_tail80))"
    by (rule md5_80 [OF lo]) simp
  finally show ?thesis .
qed

lemma md5_ipad_yay: "md5_block md5_init [79, 87, 79, 54, 54, 54, 54, 54, 54, 54, 54, 54, 54, 54, 54, 54, 54, 54, 54, 54, 54, 54, 54, 54, 54, 54, 54, 54, 54, 54, 54, 54, 54, 54, 54, 54, 54, 54, 54, 54, 54, 54, 54, 54, 54, 54, 54, 54, 54, 54, 54, 54, 54, 54, 54, 54, 54, 54, 54, 54, 54, 54, 54, 54] = (1283511438, 1813341983, 3354435563, 3084977516)"
  by (simp add: md5_init_def md5_eval)

lemma md5_opad_yay: "md5_block md5_init [37, 61, 37, 92, 92, 92, 92, 92, 92, 92, 92, 92, 92, 92, 92, 92, 92, 92, 92, 92, 92, 92, 92, 92, 92, 92, 92, 92, 92, 92, 92, 92, 92, 92, 92, 92, 92, 92, 92, 92, 92, 92, 92, 92, 92, 92, 92, 92, 92, 92, 92, 92, 92, 92, 92, 92, 92, 92, 92, 92, 92, 92, 92, 92] = (473397620, 3604617341, 2621355259, 4104423621)"
  by (simp add: md5_init_def md5_eval)

lemma md5_inner_0: "md5_block (1283511438, 1813341983, 3354435563, 3084977516) [0, 0, 0, 0, 0, 0, 0, 0, 0, 0, 0, 0, 0, 0, 0, 0, 128, 0, 0, 0, 0, 0, 0, 0, 0, 0, 0, 0, 0, 0, 0, 0, 0, 0, 0, 0, 0, 0, 0, 0, 0, 0, 0, 0, 0, 0, 0, 0, 0, 0, 0, 0, 0, 0, 0, 0, 128, 2, 0, 0, 0, 0, 0, 0] = (404301673, 2045937764, 2728489228, 2401510576)"
  by (simp add: md5_eval)

lemma md5_outer_0: "md5_block (473397620, 3604617341, 2621355259, 4104423621) [105, 39, 25, 24, 100, 136, 242, 121, 12, 113, 161, 162, 176, 36, 36, 143, 128, 0, 0, 0, 0, 0, 0, 0, 0, 0, 0, 0, 0, 0, 0, 0, 0, 0, 0, 0, 0, 0, 0, 0, 0, 0, 0, 0, 0, 0, 0, 0, 0, 0, 0, 0, 0, 0, 0, 0, 128, 2, 0, 0, 0, 0, 0, 0] = (2737815098, 2728111264, 3558296999, 103854352)"
  by (simp add: md5_eval)

lemma hmac_yay_0: "HMAC md5_New yay [0, 0, 0, 0, 0, 0, 0, 0, 0, 0, 0, 0, 0, 0, 0, 0] = [58, 190, 47, 163, 160, 172, 155, 162, 167, 77, 23, 212, 16, 177, 48, 6]"
  by (simp add: HMAC_def hmac_md5_16 yay_def replicate_61 replicate_39 md5_ipad_yay md5_opad_yay
        md5_tail80_def md5_inner_0 md5_digest_def bytes32_def md5_outer_0)

lemma md5_inner_1: "md5_block (1283511438, 1813341983, 3354435563, 3084977516) [0, 0, 0, 0, 0, 0, 0, 0, 1, 0, 0, 0, 0, 0, 0, 0, 128, 0, 0, 0, 0, 0, 0, 0, 0, 0, 0, 0, 0, 0, 0, 0, 0, 0, 0, 0, 0, 0, 0, 0, 0, 0, 0, 0, 0, 0, 0, 0, 0, 0, 0, 0, 0, 0, 0, 0, 128, 2, 0, 0, 0, 0, 0, 0] = (4089354805, 3858165466, 1007974609, 1825930559)"
  by (simp add: md5_eval)

lemma md5_outer_1: "md5_block (473397620, 3604617341, 2621355259, 4104423621) [53, 154, 190, 243, 218, 238, 246, 229, 209, 120, 20, 60, 63, 125, 213, 108, 128, 0, 0, 0, 0, 0, 0, 0, 0, 0, 0, 0, 0, 0, 0, 0, 0, 0, 0, 0, 0, 0, 0, 0, 0, 0, 0, 0, 0, 0, 0, 0, 0, 0, 0, 0, 0, 0, 0, 0, 128, 2, 0, 0, 0, 0, 0, 0] = (1511591424, 1774741335, 3345004507, 3846567854)"
  by (simp add: md5_eval)

lemma hmac_yay_1: "HMAC md5_New yay [0, 0, 0, 0, 0, 0, 0, 0, 1, 0, 0, 0, 0, 0, 0, 0] = [0, 14, 25, 90, 87, 103, 200, 105, 219, 183, 96, 199, 174, 247, 69, 229]"
  by (simp add: HMAC_def hmac_md5_16 yay_def replicate_61 replicate_39 md5_ipad_yay md5_opad_yay
        md5_tail80_def md5_inner_1 md5_digest_def bytes32_def md5_outer_1)

lemma md5_inner_2: "md5_block (1283511438, 1813341983, 3354435563, 3084977516) [0, 0, 0, 0, 0, 0, 0, 0, 2, 0, 0, 0, 0, 0, 0, 0, 128, 0, 0, 0, 0, 0, 0, 0, 0, 0, 0, 0, 0, 0, 0, 0, 0, 0, 0, 0, 0, 0, 0, 0, 0, 0, 0, 0, 0, 0, 0, 0, 0, 0, 0, 0, 0, 0, 0, 0, 128, 2, 0, 0, 0, 0, 0, 0] = (3037120835, 473106011, 2023740192, 2494423290)"
  by (simp add: md5_eval)

lemma md5_outer_2: "md5_block (473397620, 3604617341, 2621355259, 4104423621) [67, 201, 6, 181, 91, 6, 51, 28, 32, 211, 159, 120, 250, 224, 173, 148, 128, 0, 0, 0, 0, 0, 0, 0, 0, 0, 0, 0, 0, 0, 0, 0, 0, 0, 0, 0, 0, 0, 0, 0, 0, 0, 0, 0, 0, 0, 0, 0, 0, 0, 0, 0, 0, 0, 0, 0, 128, 2, 0, 0, 0, 0, 0, 0] = (1176753735, 3843117704, 1014545073, 2642495901)"
  by (simp add: md5_eval)

lemma hmac_yay_2: "HMAC md5_New yay [0, 0, 0, 0, 0, 0, 0, 0, 2, 0, 0, 0, 0, 0, 0, 0] = [71, 214, 35, 70, 136, 82, 17, 229, 177, 186, 120, 60, 157, 73, 129, 157]"
  by (simp add: HMAC_def hmac_md5_16 yay_def replicate_61 replicate_39 md5_ipad_yay md5_opad_yay
        md5_tail80_def md5_inner_2 md5_digest_def bytes32_def md5_outer_2)

lemma md5_inner_3: "md5_block (1283511438, 1813341983, 3354435563, 3084977516) [0, 0, 0, 0, 0, 0, 0, 0, 3, 0, 0, 0, 0, 0, 0, 0, 128, 0, 0, 0, 0, 0, 0, 0, 0, 0, 0, 0, 0, 0, 0, 0, 0, 0, 0, 0, 0, 0, 0, 0, 0, 0, 0, 0, 0, 0, 0, 0, 0, 0, 0, 0, 0, 0, 0, 0, 128, 2, 0, 0, 0, 0, 0, 0] = (2638921797, 1971299396, 1621383924, 2581902468)"
  by (simp add: md5_eval)

lemma md5_outer_3: "md5_block (473397620, 3604617341, 2621355259, 4104423621) [69, 192, 74, 157, 68, 164, 127, 117, 244, 90, 164, 96, 132, 180, 228, 153, 128, 0, 0, 0, 0, 0, 0, 0, 0, 0, 0, 0, 0, 0, 0, 0, 0, 0, 0, 0, 0, 0, 0, 0, 0, 0, 0, 0, 0, 0, 0, 0, 0, 0, 0, 0, 0, 0, 0, 0, 128, 2, 0, 0, 0, 0, 0, 0] = (3971769654, 2517316655, 3950031471, 1428352331)"
  by (simp add: md5_eval)

lemma hmac_yay_3: "HMAC md5_New yay [0, 0, 0, 0, 0, 0, 0, 0, 3, 0, 0, 0, 0, 0, 0, 0] = [54, 101, 188, 236, 47, 52, 11, 150, 111, 178, 112, 235, 75, 237, 34, 85]"
  by (simp add: HMAC_def hmac_md5_16 yay_def replicate_61 replicate_39 md5_ipad_yay md5_opad_yay
        md5_tail80_def md5_inner_3 md5_digest_def bytes32_def md5_outer_3)

lemma md5_inner_4: "md5_block (1283511438, 1813341983, 3354435563, 3084977516) [0, 0, 0, 0, 0, 0, 0, 0, 4, 0, 0, 0, 0, 0, 0, 0, 128, 0, 0, 0, 0, 0, 0, 0, 0, 0, 0, 0, 0, 0, 0, 0, 0, 0, 0, 0, 0, 0, 0, 0, 0, 0, 0, 0, 0, 0, 0, 0, 0, 0, 0, 0, 0, 0, 0, 0, 128, 2, 0, 0, 0, 0, 0, 0] = (3889142088, 4219011751, 3465600153, 1345298566)"
  by (simp add: md5_eval)

lemma md5_outer_4: "md5_block (473397620, 3604617341, 2621355259, 4104423621) [72, 153, 207, 231, 167, 2, 121, 251, 153, 220, 144, 206, 134, 160, 47, 80, 128, 0, 0, 0, 0, 0, 0, 0, 0, 0, 0, 0, 0, 0, 0, 0, 0, 0, 0, 0, 0, 0, 0, 0, 0, 0, 0, 0, 0, 0, 0, 0, 0, 0, 0, 0, 0, 0, 0, 0, 128, 2, 0, 0, 0, 0, 0, 0] = (1861555585, 1256772612, 3091566235, 1439804719)"
  by (simp add: md5_eval)

lemma hmac_yay_4: "HMAC md5_New yay [0, 0, 0, 0, 0, 0, 0, 0, 4, 0, 0, 0, 0, 0, 0, 0] = [129, 21, 245, 110, 4, 212, 232, 74, 155, 142, 69, 184, 47, 173, 209, 85]"
  by (simp add: HMAC_def hmac_md5_16 yay_def replicate_61 replicate_39 md5_ipad_yay md5_opad_yay
        md5_tail80_def md5_inner_4 md5_digest_def bytes32_def md5_outer_4)

lemma md5_inner_5: "md5_block (1283511438, 1813341983, 3354435563, 3084977516) [0, 0, 0, 0, 0, 0, 0, 0, 5, 0, 0, 0, 0, 0, 0, 0, 128, 0, 0, 0, 0, 0, 0, 0, 0, 0, 0, 0, 0, 0, 0, 0, 0, 0, 0, 0, 0, 0, 0, 0, 0, 0, 0, 0, 0, 0, 0, 0, 0, 0, 0, 0, 0, 0, 0, 0, 128, 2, 0, 0, 0, 0, 0, 0] = (32679617, 1075636756, 4122360880, 1352645040)"
  by (simp add: md5_eval)

lemma md5_outer_5: "md5_block (473397620, 3604617341, 2621355259, 4104423621) [193, 166, 242, 1, 20, 234, 28, 64, 48, 60, 182, 245, 176, 185, 159, 80, 128, 0, 0, 0, 0, 0, 0, 0, 0, 0, 0, 0, 0, 0, 0, 0, 0, 0, 0, 0, 0, 0, 0, 0, 0, 0, 0, 0, 0, 0, 0, 0, 0, 0, 0, 0, 0, 0, 0, 0, 128, 2, 0, 0, 0, 0, 0, 0] = (2185037734, 1579639950, 3448839722, 2179543023)"
  by (simp add: md5_eval)

lemma hmac_yay_5: "HMAC md5_New yay [0, 0, 0, 0, 0, 0, 0, 0, 5, 0, 0, 0, 0, 0, 0, 0] = [166, 7, 61, 130, 142, 100, 39, 94, 42, 30, 145, 205, 239, 47, 233, 129]"
  by (simp add: HMAC_def hmac_md5_16 yay_def replicate_61 replicate_39 md5_ipad_yay md5_opad_yay
        md5_tail80_def md5_inner_5 md5_digest_def bytes32_def md5_outer_5)

lemma md5_inner_6: "md5_block (1283511438, 1813341983, 3354435563, 3084977516) [0, 0, 0, 0, 0, 0, 0, 0, 6, 0, 0, 0, 0, 0, 0, 0, 128, 0, 0, 0, 0, 0, 0, 0, 0, 0, 0, 0, 0, 0, 0, 0, 0, 0, 0, 0, 0, 0, 0, 0, 0, 0, 0, 0, 0, 0, 0, 0, 0, 0, 0, 0, 0, 0, 0, 0, 128, 2, 0, 0, 0, 0, 0, 0] = (991645722, 3743274658, 3145074144, 3266884950)"
  by (simp add: md5_eval)

lemma md5_outer_6: "md5_block (473397620, 3604617341, 2621355259, 4104423621) [26, 80, 27, 59, 162, 214, 29, 223, 224, 5, 118, 187, 86, 181, 184, 194, 128, 0, 0, 0, 0, 0, 0, 0, 0, 0, 0, 0, 0, 0, 0, 0, 0, 0, 0, 0, 0, 0, 0, 0, 0, 0, 0, 0, 0, 0, 0, 0, 0, 0, 0, 0, 0, 0, 0, 0, 128, 2, 0, 0, 0, 0, 0, 0] = (1650113869, 668279597, 493457042, 548535869)"
  by (simp add: md5_eval)

lemma hmac_yay_6: "HMAC md5_New yay [0, 0, 0, 0, 0, 0, 0, 0, 6, 0, 0, 0, 0, 0, 0, 0] = [77, 189, 90, 98, 45, 35, 213, 39, 146, 142, 105, 29, 61, 254, 177, 32]"
  by (simp add: HMAC_def hmac_md5_16 yay_def replicate_61 replicate_39 md5_ipad_yay md5_opad_yay
        md5_tail80_def md5_inner_6 md5_digest_def bytes32_def md5_outer_6)

lemma md5_inner_7: "md5_block (1283511438, 1813341983, 3354435563, 3084977516) [0, 0, 0, 0, 0, 0, 0, 0, 7, 0, 0, 0, 0, 0, 0, 0, 128, 0, 0, 0, 0, 0, 0, 0, 0, 0, 0, 0, 0, 0, 0, 0, 0, 0, 0, 0, 0, 0, 0, 0, 0, 0, 0, 0, 0, 0, 0, 0, 0, 0, 0, 0, 0, 0, 0, 0, 128, 2, 0, 0, 0, 0, 0, 0] = (1306714346, 692418626, 1730682345, 1947575070)"
  by (simp add: md5_eval)

lemma md5_outer_7: "md5_block (473397620, 3604617341, 2621355259, 4104423621) [234, 224, 226, 77, 66, 120, 69, 41, 233, 29, 40, 103, 30, 163, 21, 116, 128, 0, 0, 0, 0, 0, 0, 0, 0, 0, 0, 0, 0, 0, 0, 0, 0, 0, 0, 0, 0, 0, 0, 0, 0, 0, 0, 0, 0, 0, 0, 0, 0, 0, 0, 0, 0, 0, 0, 0, 128, 2, 0, 0, 0, 0, 0, 0] = (3427273184, 835487290, 1071739792, 3745346915)"
  by (simp add: md5_eval)

lemma hmac_yay_7: "HMAC md5_New yay [0, 0, 0, 0, 0, 0, 0, 0, 7, 0, 0, 0, 0, 0, 0, 0] = [224, 9, 72, 204, 58, 134, 204, 49, 144, 115, 225, 63, 99, 117, 61, 223]"
  by (simp add: HMAC_def hmac_md5_16 yay_def replicate_61 replicate_39 md5_ipad_yay md5_opad_yay
        md5_tail80_def md5_inner_7 md5_digest_def bytes32_def md5_outer_7)

text \<open>A test vector of RFC 1321: the digest of "abc".\<close>

lemma md5_abc: "md5 [0x61, 0x62, 0x63] = [0x90, 0x01, 0x50, 0x98, 0x3c, 0xd2, 0x4f, 0xb0, 0xd6, 0x96, 0x3f, 0x7d, 0x28, 0xe1, 0x7f, 0x72]"
proof -
  let ?blk = "[97, 98, 99, 128, 0, 0, 0, 0, 0, 0, 0, 0, 0, 0, 0, 0, 0, 0, 0, 0, 0, 0, 0, 0, 0, 0, 0, 0, 0, 0, 0, 0, 0, 0, 0, 0, 0, 0, 0, 0, 0, 0, 0, 0, 0, 0, 0, 0, 0, 0, 0, 0, 0, 0, 0, 0, 24, 0, 0, 0, 0, 0, 0, 0] :: byte list"
  have p: "md5_pad [0x61, 0x62, 0x63] = ?blk"
    by (simp add: md5_pad_def bytes32_def) code_simp
  have l: "length ?blk = 64" by simp
  have b: "md5_block md5_init ?blk = (2555380112, 2958021180, 2101319382, 1920983336)"
    by (simp add: md5_init_def md5_eval)
  have "md5_blocks md5_init ?blk = md5_block md5_init ?blk"
    using md5_blocks_app [OF l, of md5_init "[]"] by (simp add: md5_blocks_short)
  then show ?thesis
    by (simp add: md5_def p b md5_digest_def bytes32_def)
qed

section \<open>The package test\<close>

lemma upt8: "[0..<8] = [0,1,2,3,4,5,6,7]"
  by code_simp

lemma test_tree_fields [simp]:
  "root_key test_tree = yay_slice" "alg test_tree = HMAC md5_New" "blockSize test_tree = 2"
  "maxSize test_tree = 16" "depth test_tree = 1" "factor test_tree = 8"
  by (simp_all add: test_tree_def exact_depth_2_16_8)

lemma test_tree_key:
  "offset \<le> 16 \<Longrightarrow>
     Key_bytes exact offset (start test_tree) = Inr (HMAC md5_New yay (le64 0 @ le64 (offset div 2)))"
  by (simp add: Key_bytes_derive derive_def levelBlockSize_power levelPower_def Let_def)

lemma le64_small:
  "le64 0 = [0,0,0,0,0,0,0,0]" "le64 1 = [1,0,0,0,0,0,0,0]" "le64 2 = [2,0,0,0,0,0,0,0]"
  "le64 3 = [3,0,0,0,0,0,0,0]" "le64 4 = [4,0,0,0,0,0,0,0]" "le64 5 = [5,0,0,0,0,0,0,0]"
  "le64 6 = [6,0,0,0,0,0,0,0]" "le64 7 = [7,0,0,0,0,0,0,0]"
  by (simp_all add: le64_def upt8)

lemmas hmac_yay = hmac_yay_0 hmac_yay_1 hmac_yay_2 hmac_yay_3 hmac_yay_4 hmac_yay_5 hmac_yay_6 hmac_yay_7

section \<open>Evaluating the double-precision runtime\<close>

lemmas go_eval =
  round53_def fmul_def fadd_def fsub_def fdiv_def fless_def ftrunc_def fceil_def Frexp_def
  bits_def bits_from.simps Let_def

lemma go64_ops [simp]:
  "float64 go64 w = round53 (uint w, 0)" "uint64 go64 x = word_of_int (ftrunc x)"
  "quo go64 = fdiv" "Log go64 = go_Log" "Ceil go64 = fceil" "Pow go64 = go_Pow"
  by (simp_all add: go64_def)

text \<open>\<open>go_Log\<close> step by step, each intermediate value named.\<close>

lemma go_Log_steps:
  assumes "0 < fst x"
    and "Frexp x = (f0, k0)"
    and "(if fless f0 (6369051672525773, - 53) then (fmul f0 (2, 0), k0 - 1) else (f0, k0)) = (f1, ki)"
    and "fsub f1 (1, 0) = f"
    and "fdiv f (fadd (2, 0) f) = s"
    and "fmul s s = s2"
    and "fmul s2 s2 = s4"
    and "fmul s2 (fadd (6004799503160723, - 53) (fmul s4 (fadd (5146971033736025, - 54)
           (fmul s4 (fadd (3275661152453103, - 54) (fmul s4 (1332903234475153, - 53))))))) = t1"
    and "fmul s4 (fadd (1801439850921601, - 52) (fmul s4 (fadd (8006390766270639, - 55)
           (fmul s4 (5517391500461727, - 55))))) = t2"
    and "fadd t1 t2 = R"
    and "fmul (fmul (1, - 1) f) f = hfsq"
    and "fsub (fmul (ki, 0) (2977044471, - 32))
           (fsub (fsub hfsq (fadd (fmul s (fadd hfsq R)) (fmul (ki, 0) (3691024475790907, - 84)))) f) = r"
  shows "go_Log x = r"
  using assms(1) unfolding go_Log_def Let_def assms(2) prod.case assms(3) assms(4) assms(5) assms(6)
    assms(7) assms(8) assms(9) assms(10) assms(11) assms(12)
  by simp

lemma go_Log_2: "go_Log (2, 0) = (6243314768165359, - 53)"
  by (rule go_Log_steps) (simp add: go_eval)+

lemma go_Log_5: "go_Log (5, 0) = (7248263982714163, - 52)"
  by (rule go_Log_steps) (simp add: go_eval)+

lemma go_Log_2_29: "go_Log (4503599627370496, - 23) = (5658004008649857, - 48)"
  by (rule go_Log_steps) (simp add: go_eval)+

lemma go_Log_125: "go_Log (8796093022208000, - 46) = (5436197987035623, - 50)"
  by (rule go_Log_steps) (simp add: go_eval)+

lemma depth_pow2_tree: "depth pow2_tree = 30"
proof -
  have a: "round53 (18446744073709551615, 0) = (9007199254740992, 11)"
    by (simp add: go_eval)
  have b: "round53 (34359738368, 0) = (34359738368, 0)"
    by (simp add: go_eval)
  have c: "fdiv (9007199254740992, 11) (34359738368, 0) = (4503599627370496, - 23)"
    by (simp add: go_eval)
  have d: "fdiv (5658004008649857, - 48) (6243314768165359, - 53) = (8162774324609025, - 48)"
    by (simp add: go_eval)
  have e: "fceil (8162774324609025, - 48) = (30, 0)"
    by (simp add: go_eval)
  have f: "ftrunc (30, 0) = 30"
    by (simp add: go_eval)
  show ?thesis
    by (simp add: pow2_tree_def New_def a b c go_Log_2_29 go_Log_2 d e f)
qed

lemma depth_pow5_tree: "depth pow5_tree = 4"
proof -
  have a: "round53 (18446744073709551615, 0) = (9007199254740992, 11)"
    by (simp add: go_eval)
  have b: "round53 (147573952589676413, 0) = (4611686018427388, 5)"
    by (simp add: go_eval)
  have c: "fdiv (9007199254740992, 11) (4611686018427388, 5) = (8796093022208000, - 46)"
    by (simp add: go_eval)
  have d: "fdiv (5436197987035623, - 50) (7248263982714163, - 52) = (6755399441055745, - 51)"
    by (simp add: go_eval)
  have e: "fceil (6755399441055745, - 51) = (4, 0)"
    by (simp add: go_eval)
  have f: "ftrunc (4, 0) = 4"
    by (simp add: go_eval)
  show ?thesis
    by (simp add: pow5_tree_def New_def a b c go_Log_125 go_Log_5 d e f)
qed

lemma pow_tree_fields [simp]:
  "root_key pow2_tree = yay_slice" "alg pow2_tree = xor16" "blockSize pow2_tree = 34359738368"
  "maxSize pow2_tree = 18446744073709551615" "factor pow2_tree = (2, 0)"
  "root_key pow5_tree = yay_slice" "alg pow5_tree = xor16" "blockSize pow5_tree = 147573952589676413"
  "maxSize pow5_tree = 18446744073709551615" "factor pow5_tree = (5, 0)"
  by (simp_all add: pow2_tree_def pow5_tree_def)

text \<open>\<open>go_Pow\<close> step by step.\<close>

lemma pow_loop_0: "pow_loop 0 x1 xe a1 ae = (a1, ae)"
  by (simp add: pow_loop.simps)

lemma pow_loop_step:
  assumes "i \<noteq> 0" "\<not> (xe < - 4096 \<or> 4096 < xe)"
    and "(if odd i then (fmul a1 x1, ae + xe) else (a1, ae)) = (a1', ae')"
    and "fmul x1 x1 = x2"
    and "(if fless x2 (1, - 1) then (fadd x2 x2, 2 * xe - 1) else (x2, 2 * xe)) = (x1', xe')"
    and "pow_loop (i div 2) x1' xe' a1' ae' = r"
  shows "pow_loop i x1 xe a1 ae = r"
  using assms(1,2)
  unfolding pow_loop.simps [of i x1 xe a1 ae] Let_def assms(3) prod.case assms(4) assms(5) assms(6)
  by simp

lemma go_Pow_steps:
  assumes "fst y \<noteq> 0" "fless x (1, 0) \<or> fless (1, 0) x" "fless y (1, 0) \<or> fless (1, 0) y"
    and "Frexp x = (x1, xe)"
    and "pow_loop (nat (ftrunc y)) x1 xe (1, 0) 0 = (a1, ae)"
  shows "go_Pow x y = (fst a1, snd a1 + ae)"
  using assms(1,2,3) unfolding go_Pow_def Let_def assms(4) prod.case assms(5)
  by auto

lemma pow_loop_2_29: "pow_loop 29 (2, - 2) 2 (1, 0) 0 = ((4503599627370496, - 56), 33)"
  apply (rule pow_loop_step, simp, simp, (simp add: go_eval)+)
  apply (rule pow_loop_step, simp, simp, (simp add: go_eval)+)
  apply (rule pow_loop_step, simp, simp, (simp add: go_eval)+)
  apply (rule pow_loop_step, simp, simp, (simp add: go_eval)+)
  apply (rule pow_loop_step, simp, simp, (simp add: go_eval)+)
  apply (simp add: pow_loop_0)
  done

lemma go_Pow_2_29: "go_Pow (2, 0) (29, 0) = (4503599627370496, - 23)"
  using go_Pow_steps [of "(29, 0)" "(2, 0)" "(2, - 2)" 2 "(4503599627370496, - 56)" 33]
  by (simp add: go_eval pow_loop_2_29)

lemma pow_loop_5_3: "pow_loop 3 (5, - 3) 3 (1, 0) 0 = ((250, - 9), 8)"
  apply (rule pow_loop_step, simp, simp, (simp add: go_eval)+)
  apply (rule pow_loop_step, simp, simp, (simp add: go_eval)+)
  apply (simp add: pow_loop_0)
  done

lemma pow_loop_5_2: "pow_loop 2 (5, - 3) 3 (1, 0) 0 = ((50, - 6), 5)"
  apply (rule pow_loop_step, simp, simp, (simp add: go_eval)+)
  apply (rule pow_loop_step, simp, simp, (simp add: go_eval)+)
  apply (simp add: pow_loop_0)
  done

lemma go_Pow_5_3: "go_Pow (5, 0) (3, 0) = (250, - 1)"
  using go_Pow_steps [of "(3, 0)" "(5, 0)" "(5, - 3)" 3 "(250, - 9)" 8]
  by (simp add: go_eval pow_loop_5_3)

lemma go_Pow_5_2: "go_Pow (5, 0) (2, 0) = (50, - 1)"
  using go_Pow_steps [of "(2, 0)" "(5, 0)" "(5, - 3)" 3 "(50, - 6)" 5]
  by (simp add: go_eval pow_loop_5_2)

lemma go_Pow_5_1: "go_Pow (5, 0) (1, 0) = (5, 0)"
  by (simp add: go_Pow_def fless_def)

lemma go_Pow_5_0: "go_Pow (5, 0) (0, 0) = (1, 0)"
  by (simp add: go_Pow_def)

lemma small_floats:
  "round53 (0, 0) = (0, 0)" "round53 (1, 0) = (1, 0)" "round53 (2, 0) = (2, 0)"
  "round53 (3, 0) = (3, 0)" "round53 (29, 0) = (29, 0)"
  by (simp_all add: go_eval)

lemma level_pow2_tree:
  "levelPower go64 pow2_tree 0 = 536870912" "levelBlockSize go64 pow2_tree 0 = 0"
proof -
  have t: "ftrunc (4503599627370496, - 23) = 536870912" by (simp add: go_eval)
  show p: "levelPower go64 pow2_tree 0 = 536870912"
    by (simp add: levelPower_def depth_pow2_tree small_floats go_Pow_2_29 t)
  show "levelBlockSize go64 pow2_tree 0 = 0"
    by (simp add: levelBlockSize_power p)
qed

lemma derive_pow2_tree: "derive go64 pow2_tree offset yay = (Inl DivideByZero, [])"
proof -
  have "[0..<unat (30 :: u64)] = 0 # [1..<30]" by (simp add: upt_conv_Cons)
  then show ?thesis
    using level_pow2_tree(2) by (simp add: derive_def depth_pow2_tree)
qed

lemma level_pow5_tree:
  "levelBlockSize go64 pow5_tree 0 = 9"
  "levelBlockSize go64 pow5_tree 1 = 3689348814741910325"
  "levelBlockSize go64 pow5_tree 2 = 737869762948382065"
  "levelBlockSize go64 pow5_tree 3 = 147573952589676413"
proof -
  have t: "ftrunc (250, - 1) = 125" "ftrunc (50, - 1) = 25" "ftrunc (5, 0) = 5" "ftrunc (1, 0) = 1"
    by (simp_all add: go_eval)
  show "levelBlockSize go64 pow5_tree 0 = 9"
    by (simp add: levelBlockSize_power levelPower_def depth_pow5_tree small_floats go_Pow_5_3 t)
  show "levelBlockSize go64 pow5_tree 1 = 3689348814741910325"
    by (simp add: levelBlockSize_power levelPower_def depth_pow5_tree small_floats go_Pow_5_2 t)
  show "levelBlockSize go64 pow5_tree 2 = 737869762948382065"
    by (simp add: levelBlockSize_power levelPower_def depth_pow5_tree small_floats go_Pow_5_1 t)
  show "levelBlockSize go64 pow5_tree 3 = 147573952589676413"
    by (simp add: levelBlockSize_power levelPower_def depth_pow5_tree small_floats go_Pow_5_0 t)
qed

lemma upt_0_4: "[0..<4] = [0, 1, 2, 3]"
  by code_simp

lemma derive_pow5_tree_9:
  "fst (derive go64 pow5_tree 9 yay) =
     Inr (xor16 (xor16 (xor16 (xor16 yay (le64 0 @ le64 1)) (le64 1 @ le64 0)) (le64 2 @ le64 0)) (le64 3 @ le64 0))"
  by (simp add: derive_def depth_pow5_tree upt_0_4 level_pow5_tree Let_def)

lemma derive_pow5_tree_0:
  "fst (derive go64 pow5_tree 0 yay) =
     Inr (xor16 (xor16 (xor16 (xor16 yay (le64 0 @ le64 0)) (le64 1 @ le64 0)) (le64 2 @ le64 0)) (le64 3 @ le64 0))"
  by (simp add: derive_def depth_pow5_tree upt_0_4 level_pow5_tree Let_def)

lemma xor16_chain_differs:
  "xor16 (xor16 (xor16 (xor16 yay (le64 0 @ le64 1)) (le64 1 @ le64 0)) (le64 2 @ le64 0)) (le64 3 @ le64 0) \<noteq>
   xor16 (xor16 (xor16 (xor16 yay (le64 0 @ le64 0)) (le64 1 @ le64 0)) (le64 2 @ le64 0)) (le64 3 @ le64 0)"
  by code_simp

text \<open>On the first tree every call within the bound stops at the first level.\<close>

lemma Key_pow2_tree:
  "fst (Key go64 offset (start pow2_tree)) = Inl DivideByZero"
proof -
  have "unat offset < 2 ^ 64" using unsigned_less [of offset] by simp
  then have le: "offset \<le> maxSize (tree (start pow2_tree))"
    by (simp add: word_le_nat_alt)
  have v: "valid_slice (mem (start pow2_tree)) (root_key (tree (start pow2_tree)))" by simp
  have "isl (fst (Key go64 offset (start pow2_tree)))"
    using Key_outcome [OF v le, of go64] by (simp add: derive_pow2_tree)
  from Key_fails [OF v le this] show ?thesis .
qed

section \<open>The claims\<close>

text \<open>
  C7 (counterexample). Construction with branching factor 1/2 and a maximum size 1 below the block size 4 does not fail: it returns a tree, of depth 2.
\<close>

theorem New_accepts_invalid_parameters:
  "New_call exact yay_slice xor16 4 1 (1/2) =
     Inr \<lparr>root_key = yay_slice, alg = xor16, blockSize = 4, maxSize = 1, depth = 2, factor = 1/2\<rparr>"
  using exact_depth_4_1_half [of yay_slice xor16] by (simp add: New_call_def New_def)

text \<open>
  C7 (as amended). \<open>New\<close> validates nothing and never fails: for every block size, maximum size and factor (a factor at most 1, a block size 0 and a maximum size below the block size included) it returns a tree that stores its arguments unchanged.
\<close>

theorem New_never_fails:
  "New_call R key a bs ms f = Inr (New R key a bs ms f) \<and>
   root_key (New R key a bs ms f) = key \<and> alg (New R key a bs ms f) = a \<and>
   blockSize (New R key a bs ms f) = bs \<and> maxSize (New R key a bs ms f) = ms \<and>
   factor (New R key a bs ms f) = f"
  by (simp add: New_call_def)

text \<open>
  C4 (). The depth is computed by \<open>New\<close> as the conversion to \<open>uint64\<close> of \<open>Ceil(Log(float64(maxSize) / float64(blockSize)) / Log(factor))\<close>; a call of \<open>Key\<close> leaves it as it was; for block size 2, maximum size 16 and factor 8 (where 16 / 2 = 8 and the quotient of the two equal logarithms is 1) it is 1.
\<close>

theorem New_depth:
  "depth (New R key a bs ms f) =
     uint64 R (Ceil R (quo R (Log R (quo R (float64 R ms) (float64 R bs))) (Log R f))) \<and>
   depth (tree (snd (Key R offset \<sigma>))) = depth (tree \<sigma>) \<and>
   depth (New exact key a 2 16 8) = 1"
  by (simp add: Key_tree exact_depth_2_16_8) (simp add: New_def)




text \<open>
  C9 (). When the depth is 0, \<open>Key(offset)\<close> for \<open>offset \<le> maxSize\<close> calls the keyed-hash factory not once and returns a slice on a newly allocated array holding the bytes of the root key, as many as the root key has. With exact arithmetic every tree built with \<open>maxSize = blockSize\<close> (not 0) and a factor above 1 has depth 0.
\<close>

theorem Key_depth_zero:
  "(depth (tree \<sigma>) = 0 \<and> offset \<le> maxSize (tree \<sigma>) \<and>
    valid_slice (mem \<sigma>) (root_key (tree \<sigma>)) \<and> Key R offset \<sigma> = (r, \<sigma>') \<longrightarrow>
      calls \<sigma>' = calls \<sigma> \<and> \<not> isl r \<and> length (mem \<sigma>) \<le> arr (projr r) \<and>
      bytes_of (mem \<sigma>') (projr r) = bytes_of (mem \<sigma>) (root_key (tree \<sigma>)) \<and>
      length (bytes_of (mem \<sigma>') (projr r)) = len (root_key (tree \<sigma>))) \<and>
   (bs \<noteq> 0 \<and> 1 < f \<longrightarrow> depth (New exact key a bs bs f) = 0)"
proof (intro conjI impI)
  assume a: "depth (tree \<sigma>) = 0 \<and> offset \<le> maxSize (tree \<sigma>) \<and>
    valid_slice (mem \<sigma>) (root_key (tree \<sigma>)) \<and> Key R offset \<sigma> = (r, \<sigma>')"
  then have d: "depth (tree \<sigma>) = 0" and le: "offset \<le> maxSize (tree \<sigma>)"
    and v: "valid_slice (mem \<sigma>) (root_key (tree \<sigma>))" and run: "Key R offset \<sigma> = (r, \<sigma>')"
    by simp_all
  note inv = Key_inv [OF v le run]
  from inv(5) d have c: "calls \<sigma>' = calls \<sigma>"
    and rb: "result_bytes (mem \<sigma>') r = Inr (bytes_of (mem \<sigma>) (root_key (tree \<sigma>)))"
    by (auto simp: derive_def)
  from rb obtain k where k: "r = Inr k" "bytes_of (mem \<sigma>') k = bytes_of (mem \<sigma>) (root_key (tree \<sigma>))"
    by (auto simp: result_bytes_def split: sum.splits)
  show "calls \<sigma>' = calls \<sigma>" by (rule c)
  show "\<not> isl r" using k by simp
  show "length (mem \<sigma>) \<le> arr (projr r)" using inv(4) k by simp
  show "bytes_of (mem \<sigma>') (projr r) = bytes_of (mem \<sigma>) (root_key (tree \<sigma>))" using k by simp
  show "length (bytes_of (mem \<sigma>') (projr r)) = len (root_key (tree \<sigma>))"
    using k bytes_of_root_length [OF v] by simp
next
  assume "bs \<noteq> 0 \<and> 1 < f"
  then show "depth (New exact key a bs bs f) = 0" by (simp add: exact_depth_eq)
qed

text \<open>
  C9 (witness). Block size 2, maximum size 2, factor 8: depth 0, and \<open>Key(1)\<close> returns the three bytes of the root key without a factory call.
\<close>

theorem Key_depth_zero_witness:
  "calls (snd (Key exact 1 (start (New exact yay_slice xor16 2 2 8)))) = [] \<and>
   \<not> isl (fst (Key exact 1 (start (New exact yay_slice xor16 2 2 8)))) \<and>
   bytes_of (mem (snd (Key exact 1 (start (New exact yay_slice xor16 2 2 8)))))
      (projr (fst (Key exact 1 (start (New exact yay_slice xor16 2 2 8))))) = yay \<and>
   depth (New exact yay_slice xor16 2 2 8) = 0"
  using Key_depth_zero [of "start (New exact yay_slice xor16 2 2 8)" 1 exact
      "fst (Key exact 1 (start (New exact yay_slice xor16 2 2 8)))"
      "snd (Key exact 1 (start (New exact yay_slice xor16 2 2 8)))" 2 8 yay_slice xor16]
  by simp

text \<open>
  C1 (counterexample). Block size 2, maximum size 4, factor 3/2: the depth is 2, and at offset 2 the program divides by \<open>uint64(1.5) * 2 = 2\<close> at the upper level (node index 1) where the reference walk divides by \<open>2 * 1.5 = 3\<close> (node index 0); the keys differ.
\<close>

theorem Key_truncates_power:
  "depth (New exact yay_slice xor16 2 4 (3/2)) = 2 \<and> 2 \<le> maxSize (New exact yay_slice xor16 2 4 (3/2)) \<and>
   Key_bytes exact 2 (start (New exact yay_slice xor16 2 4 (3/2))) \<noteq>
     Inr (spec_Key (alg (New exact yay_slice xor16 2 4 (3/2))) yay
            (unat (blockSize (New exact yay_slice xor16 2 4 (3/2))))
            (factor (New exact yay_slice xor16 2 4 (3/2)))
            (unat (depth (New exact yay_slice xor16 2 4 (3/2)))) (unat (2::u64)))"
  by (simp add: exact_depth_2_4_3half Key_bytes_derive derive_2_4_3half_at_2 spec_Key_2_3half_at_2 xor16_differs)

text \<open>
  C1 (as amended). If the factor acts as a positive whole number \<open>F\<close> (the converted power is exactly \<open>F^(level-1)\<close> at every level), the block size is not 0 and \<open>F^(depth-1) * blockSize\<close> fits 64 bits, then \<open>Key(offset)\<close> for \<open>offset \<le> maxSize\<close> returns the key of the reference walk of the specification.
\<close>

theorem Key_reference_walk:
  "valid_slice (mem \<sigma>) (root_key (tree \<sigma>)) \<and> offset \<le> maxSize (tree \<sigma>) \<and>
   whole_factor R (tree \<sigma>) F \<and> 0 < F \<and> blockSize (tree \<sigma>) \<noteq> 0 \<and>
   F ^ (unat (depth (tree \<sigma>)) - 1) * unat (blockSize (tree \<sigma>)) < 2 ^ 64 \<longrightarrow>
   Key_bytes R offset \<sigma> =
     Inr (spec_Key (alg (tree \<sigma>)) (bytes_of (mem \<sigma>) (root_key (tree \<sigma>)))
            (unat (blockSize (tree \<sigma>))) (real F) (unat (depth (tree \<sigma>))) (unat offset))"
  by (auto intro: Key_bytes_spec)

text \<open>
  C1 (witness). Block size 2, maximum size 128, factor 8 (depth 2), offset 100.
\<close>

theorem Key_reference_walk_witness:
  "Key_bytes exact 100 (start (New exact yay_slice xor16 2 128 8)) =
     Inr (spec_Key xor16 yay 2 8 2 100)"
  using Key_reference_walk [of "start (New exact yay_slice xor16 2 128 8)" 100 exact 8]
  by (simp add: whole_factor_def exact_depth_2_128_8 levelPower_def all_less_2)




text \<open>
  C6 (counterexample). Block size 2, maximum size 2, factor 8 with a 16-byte keyed hash: the depth is 0 and \<open>Key(0)\<close> returns the 3 bytes of the root key, not 16 bytes.
\<close>

theorem Key_depth_zero_length:
  "Key_bytes exact 0 (start (New exact yay_slice xor16 2 2 8)) = Inr yay \<and> length yay = 3 \<and>
   digest_size (alg (New exact yay_slice xor16 2 2 8)) 16"
  by (simp add: Key_bytes_2_2_8_at_0 digest_size_xor16) (simp add: yay_def)

text \<open>
  C6 (as amended). If every digest of the keyed hash has \<open>n\<close> bytes, a key returned by \<open>Key\<close> has \<open>n\<close> bytes when the depth is at least 1 and as many bytes as the root key when the depth is 0; in both cases the keys returned for two offsets have the same length.
\<close>

theorem Key_length:
  "digest_size (alg (tree \<sigma>)) n \<and> valid_slice (mem \<sigma>) (root_key (tree \<sigma>)) \<and>
   Key_bytes R o1 \<sigma> = Inr k1 \<and> Key_bytes R o2 \<sigma> = Inr k2 \<longrightarrow>
     length k1 = (if depth (tree \<sigma>) = 0 then len (root_key (tree \<sigma>)) else n) \<and>
     length k2 = length k1"
proof (intro impI)
  assume a: "digest_size (alg (tree \<sigma>)) n \<and> valid_slice (mem \<sigma>) (root_key (tree \<sigma>)) \<and>
   Key_bytes R o1 \<sigma> = Inr k1 \<and> Key_bytes R o2 \<sigma> = Inr k2"
  then have d: "digest_size (alg (tree \<sigma>)) n" and v: "valid_slice (mem \<sigma>) (root_key (tree \<sigma>))"
    and r1: "Key_bytes R o1 \<sigma> = Inr k1" and r2: "Key_bytes R o2 \<sigma> = Inr k2"
    by blast+
  from Key_bytes_length [OF d v r1] Key_bytes_length [OF d v r2]
  show "length k1 = (if depth (tree \<sigma>) = 0 then len (root_key (tree \<sigma>)) else n) \<and>
     length k2 = length k1" by simp
qed

text \<open>
  C6 (witness). The tree of the package test, offset 3: the key has 16 bytes.
\<close>

theorem Key_length_witness:
  "length (xor16 yay (le64 0 @ le64 1)) = 16 \<and> length (xor16 yay (le64 0 @ le64 1)) = length (xor16 yay (le64 0 @ le64 1))"
  using Key_length [of "start (New exact yay_slice xor16 2 16 8)" 16 exact 3 "xor16 yay (le64 0 @ le64 1)" 3
     "xor16 yay (le64 0 @ le64 1)"]
  by (simp add: Key_bytes_2_16_8_at_3 digest_size_xor16 exact_depth_2_16_8)

text \<open>
  C8. A call of \<open>Key\<close>, failing or not, leaves the tree (root key slice, hash, block size, maximum size, depth, factor) and every array that existed before the call as they were, so the bytes of the root key are unchanged; a returned key lies in an array allocated during the call; the same call repeated in the resulting state returns the same bytes, as does the call in any state with the same tree and the same root key bytes.
\<close>

theorem Key_pure:
  "(valid_slice (mem \<sigma>) (root_key (tree \<sigma>)) \<and> Key R offset \<sigma> = (r, \<sigma>') \<longrightarrow>
      tree \<sigma>' = tree \<sigma> \<and> (\<forall>a<length (mem \<sigma>). mem \<sigma>' ! a = mem \<sigma> ! a) \<and>
      bytes_of (mem \<sigma>') (root_key (tree \<sigma>')) = bytes_of (mem \<sigma>) (root_key (tree \<sigma>)) \<and>
      (\<not> isl r \<longrightarrow> length (mem \<sigma>) \<le> arr (projr r)) \<and>
      Key_bytes R offset \<sigma>' = Key_bytes R offset \<sigma>) \<and>
   (valid_slice (mem \<sigma>) (root_key (tree \<sigma>)) \<and> valid_slice (mem \<sigma>2) (root_key (tree \<sigma>2)) \<and>
    tree \<sigma>2 = tree \<sigma> \<and>
    bytes_of (mem \<sigma>2) (root_key (tree \<sigma>2)) = bytes_of (mem \<sigma>) (root_key (tree \<sigma>)) \<longrightarrow>
      Key_bytes R offset \<sigma>2 = Key_bytes R offset \<sigma>)"
proof (intro conjI impI)
  assume a: "valid_slice (mem \<sigma>) (root_key (tree \<sigma>)) \<and> Key R offset \<sigma> = (r, \<sigma>')"
  then have v: "valid_slice (mem \<sigma>) (root_key (tree \<sigma>))" and run: "Key R offset \<sigma> = (r, \<sigma>')"
    by simp_all
  note fr = Key_frame [OF v run]
  note sl = frame_slice [OF v fr(2) fr(3)]
  show "tree \<sigma>' = tree \<sigma>" by (rule fr(1))
  show "\<forall>a<length (mem \<sigma>). mem \<sigma>' ! a = mem \<sigma> ! a" by (rule fr(3))
  show rb: "bytes_of (mem \<sigma>') (root_key (tree \<sigma>')) = bytes_of (mem \<sigma>) (root_key (tree \<sigma>))"
    using sl(2) fr(1) by simp
  show "length (mem \<sigma>) \<le> arr (projr r)" if "\<not> isl r" using fr(4) that by simp
  show "Key_bytes R offset \<sigma>' = Key_bytes R offset \<sigma>"
  proof (rule Key_bytes_same [OF v _ fr(1) rb])
    show "valid_slice (mem \<sigma>') (root_key (tree \<sigma>'))" using sl(1) fr(1) by simp
  qed
next
  assume "valid_slice (mem \<sigma>) (root_key (tree \<sigma>)) \<and> valid_slice (mem \<sigma>2) (root_key (tree \<sigma>2)) \<and>
    tree \<sigma>2 = tree \<sigma> \<and>
    bytes_of (mem \<sigma>2) (root_key (tree \<sigma>2)) = bytes_of (mem \<sigma>) (root_key (tree \<sigma>))"
  then have "valid_slice (mem \<sigma>) (root_key (tree \<sigma>))" "valid_slice (mem \<sigma>2) (root_key (tree \<sigma>2))"
    "tree \<sigma>2 = tree \<sigma>"
    "bytes_of (mem \<sigma>2) (root_key (tree \<sigma>2)) = bytes_of (mem \<sigma>) (root_key (tree \<sigma>))"
    by blast+
  then show "Key_bytes R offset \<sigma>2 = Key_bytes R offset \<sigma>"
    by (rule Key_bytes_same)
qed

text \<open>
  C8 (witness). After \<open>Key(3)\<close> on the tree of the package test the tree and the root key bytes are as before, and a second \<open>Key(3)\<close> returns the same key.
\<close>

theorem Key_pure_witness:
  "tree (snd (Key exact 3 (start (New exact yay_slice xor16 2 16 8)))) = New exact yay_slice xor16 2 16 8 \<and>
   mem (snd (Key exact 3 (start (New exact yay_slice xor16 2 16 8)))) ! 0 = yay \<and>
   Key_bytes exact 3 (snd (Key exact 3 (start (New exact yay_slice xor16 2 16 8))))
     = Inr (xor16 yay (le64 0 @ le64 1))"
  using Key_pure [of "start (New exact yay_slice xor16 2 16 8)" exact 3
      "fst (Key exact 3 (start (New exact yay_slice xor16 2 16 8)))"
      "snd (Key exact 3 (start (New exact yay_slice xor16 2 16 8)))"
      "start (New exact yay_slice xor16 2 16 8)"]
  by (simp add: Key_bytes_2_16_8_at_3)

text \<open>
  C2. On the tree of the package test (root key "yay", HMAC-MD5, block size 2, maximum
  size 16, factor 8) \<open>Key(0)\<close> and \<open>Key(1)\<close> return
  3a be 2f a3 a0 ac 9b a2 a7 4d 17 d4 10 b1 30 06, \<open>Key(2)\<close> and \<open>Key(3)\<close> return
  00 0e 19 5a 57 67 c8 69 db b7 60 c7 ae f7 45 e5, the offsets 0 to 15 return the sixteen keys
  of the test's table, in which each even offset shares its key with the next odd one and
  the eight keys of the even offsets are distinct, each of 16 bytes.
\<close>

theorem Key_known_answers:
  "Key_bytes exact 0 (start test_tree) = Inr [0x3a, 0xbe, 0x2f, 0xa3, 0xa0, 0xac, 0x9b, 0xa2, 0xa7, 0x4d, 0x17, 0xd4, 0x10, 0xb1, 0x30, 0x06] \<and>
   Key_bytes exact 1 (start test_tree) = Inr [0x3a, 0xbe, 0x2f, 0xa3, 0xa0, 0xac, 0x9b, 0xa2, 0xa7, 0x4d, 0x17, 0xd4, 0x10, 0xb1, 0x30, 0x06] \<and>
   Key_bytes exact 2 (start test_tree) = Inr [0x00, 0x0e, 0x19, 0x5a, 0x57, 0x67, 0xc8, 0x69, 0xdb, 0xb7, 0x60, 0xc7, 0xae, 0xf7, 0x45, 0xe5] \<and>
   Key_bytes exact 3 (start test_tree) = Inr [0x00, 0x0e, 0x19, 0x5a, 0x57, 0x67, 0xc8, 0x69, 0xdb, 0xb7, 0x60, 0xc7, 0xae, 0xf7, 0x45, 0xe5] \<and>
   map (\<lambda>i. Key_bytes exact i (start test_tree)) [0, 1, 2, 3, 4, 5, 6, 7, 8, 9, 10, 11, 12, 13, 14, 15]
     = map Inr test_keys \<and>
   map (\<lambda>j. test_keys ! (2 * j)) [0, 1, 2, 3, 4, 5, 6, 7] = map (\<lambda>j. test_keys ! (2 * j + 1)) [0, 1, 2, 3, 4, 5, 6, 7] \<and>
   distinct (map (\<lambda>j. test_keys ! (2 * j)) [0, 1, 2, 3, 4, 5, 6, 7]) \<and>
   list_all (\<lambda>k. length k = 16) test_keys"
  by (simp add: test_tree_key le64_small hmac_yay test_keys_def)




end
